(* ===== verification/Prelude.thy ===== *)
theory Prelude
  imports Main "HOL-Library.Word"
begin

text \<open>
  Shared vocabulary of the development: the C integer types, little-endian byte layout, the
  number formats the gateway prints with (the \<open>%d\<close>, \<open>%lld\<close>, \<open>%u\<close> and \<open>%x\<close>
  conversions), \<open>snprintf\<close>, and the generic lemmas on lists and words that the components
  share. The collections \<open>wire\<close> and \<open>fmt\<close> hold the rewrite rules for byte layout and for
  text formatting.
\<close>

unbundle bit_operations_syntax

section \<open>C integer types\<close>

type_synonym byte = "8 word"
type_synonym u16 = "16 word"
type_synonym u32 = "32 word"
type_synonym u64 = "64 word"

named_theorems wire \<open>byte layout of multi-byte integers\<close>
named_theorems fmt \<open>text formatting\<close>

section \<open>Little-endian layout\<close>

text \<open>
  \<open>le16\<close> and \<open>le32\<close> are the shift-and-or expressions of the sources
  (\<open>(uint32_t)raw[0] | ((uint32_t)raw[1] << 8) | \<dots>\<close>); \<open>bytes_le n w\<close> is the object
  representation of a value of \<open>n\<close> bytes on the little-endian machines the gateway runs on, what
  \<open>memcpy\<close> of the value copies.
\<close>

definition le16 :: "byte \<Rightarrow> byte \<Rightarrow> u16" where
  "le16 b0 b1 = ucast b0 OR push_bit 8 (ucast b1)"

definition le32 :: "byte \<Rightarrow> byte \<Rightarrow> byte \<Rightarrow> byte \<Rightarrow> u32" where
  "le32 b0 b1 b2 b3 =
     ucast b0 OR push_bit 8 (ucast b1) OR push_bit 16 (ucast b2) OR push_bit 24 (ucast b3)"

definition le64 :: "u32 \<Rightarrow> u32 \<Rightarrow> u64" where
  "le64 lo hi = ucast lo OR push_bit 32 (ucast hi)"

definition bytes_le :: "nat \<Rightarrow> 'a::len word \<Rightarrow> byte list" where
  "bytes_le n w = map (\<lambda>i. ucast (drop_bit (8 * i) w)) [0..<n]"

lemma length_bytes_le [simp]: "length (bytes_le n w) = n"
  by (simp add: bytes_le_def)

lemma bytes_le_16 [wire]: "bytes_le 2 (w :: u16) = [ucast w, ucast (drop_bit 8 w)]"
  by (simp add: bytes_le_def upt_conv_Cons)

lemma bytes_le_32 [wire]:
  "bytes_le 4 (w :: u32) =
     [ucast w, ucast (drop_bit 8 w), ucast (drop_bit 16 w), ucast (drop_bit 24 w)]"
  by (simp add: bytes_le_def upt_conv_Cons)

lemma le16_of_bytes [wire, simp]: "le16 (ucast w) (ucast (drop_bit 8 w)) = w"
  unfolding le16_def
  by (rule bit_word_eqI) (auto simp: bit_simps)

lemma le16_low [wire, simp]: "ucast (le16 a b) = a"
  unfolding le16_def
  by (rule bit_word_eqI) (auto simp: bit_simps)

lemma le16_high [wire, simp]: "ucast (drop_bit 8 (le16 a b)) = b"
  unfolding le16_def
  by (rule bit_word_eqI) (auto simp: bit_simps dest: bit_imp_le_length)

lemma le32_of_bytes [wire, simp]:
  "le32 (ucast w) (ucast (drop_bit 8 w)) (ucast (drop_bit 16 w)) (ucast (drop_bit 24 w)) = w"
proof (rule bit_word_eqI)
  fix n
  assume "n < LENGTH(32)"
  consider "n < 8" | "8 \<le> n" "n < 16" | "16 \<le> n" "n < 24" | "24 \<le> n"
    by linarith
  then show "bit (le32 (ucast w) (ucast (drop_bit 8 w)) (ucast (drop_bit 16 w))
      (ucast (drop_bit 24 w))) n = bit w n"
    using \<open>n < LENGTH(32)\<close> by cases (auto simp: le32_def bit_simps)
qed

lemma mask_byte_16 [wire, simp]: "ucast ((w :: u16) AND 0xFF) = (ucast w :: byte)"
proof -
  have "w AND 0xFF = take_bit 8 w"
    by (simp add: take_bit_eq_mask mask_eq_exp_minus_1)
  then show ?thesis
    by (simp only:) (rule bit_word_eqI, auto simp: bit_simps)
qed

lemma le64_of_halves [wire, simp]: "le64 (ucast w) (ucast (drop_bit 32 w)) = w"
  unfolding le64_def
  by (rule bit_word_eqI) (auto simp: bit_simps)

lemma byte_of_half_word [wire, simp]:
  "i + 8 \<le> 32 \<Longrightarrow> (ucast (drop_bit i (ucast w :: u32)) :: byte) = ucast (drop_bit i (w :: u64))"
  by (rule bit_word_eqI) (auto simp: bit_simps)

lemma u16_eq_of_nat_iff: "k < 65536 \<Longrightarrow> (n :: u16) = of_nat k \<longleftrightarrow> unat n = k"
  by (auto simp: unat_of_nat)

section \<open>Number formats\<close>

text \<open>
  \<open>show_base b n\<close> is the digit string of an unsigned conversion in base \<open>b\<close> (\<open>%u\<close> for
  10, \<open>%x\<close> for 16, lower case, no leading zeros, \<open>0\<close> for zero), \<open>show_int\<close> that of a
  signed decimal conversion. \<open>read_digits\<close> is the digit loop of \<open>strtoul\<close> and
  \<open>sscanf\<close>: it consumes the longest prefix of digits of the base, in either case.
\<close>

definition digit_char :: "nat \<Rightarrow> char" where
  "digit_char d = (if d < 10 then char_of (48 + d) else char_of (87 + d))"

definition digit_val :: "char \<Rightarrow> nat option" where
  "digit_val c =
     (let k = of_char c in
      if 48 \<le> k \<and> k \<le> 57 then Some (k - 48)
      else if 97 \<le> k \<and> k \<le> 122 then Some (k - 87)
      else if 65 \<le> k \<and> k \<le> 90 then Some (k - 55)
      else None)"

fun show_base :: "nat \<Rightarrow> nat \<Rightarrow> string" where
  "show_base b n =
     (if b < 2 \<or> n < b then [digit_char n]
      else show_base b (n div b) @ [digit_char (n mod b)])"

declare show_base.simps [simp del]

definition show_int :: "int \<Rightarrow> string" where
  "show_int i =
     (if i < 0 then CHR ''-'' # show_base 10 (nat (- i)) else show_base 10 (nat i))"

definition pad_left :: "nat \<Rightarrow> char \<Rightarrow> string \<Rightarrow> string" where
  "pad_left w c s = replicate (w - length s) c @ s"

fun read_digits :: "nat \<Rightarrow> nat \<Rightarrow> string \<Rightarrow> nat \<times> string" where
  "read_digits b acc [] = (acc, [])"
| "read_digits b acc (c # cs) =
     (case digit_val c of
        None \<Rightarrow> (acc, c # cs)
      | Some d \<Rightarrow> if d < b then read_digits b (acc * b + d) cs else (acc, c # cs))"

lemma digit_val_char [fmt, simp]: "d < 16 \<Longrightarrow> digit_val (digit_char d) = Some d"
  by (auto simp: digit_val_def digit_char_def Let_def)

lemma show_base_not_Nil [simp]: "show_base b n \<noteq> []"
  by (subst show_base.simps) simp

lemma read_show_base [fmt]:
  assumes "2 \<le> b" "b \<le> 16"
  shows "read_digits b acc (show_base b n @ rest) =
    read_digits b (acc * b ^ length (show_base b n) + n) rest"
  using assms
proof (induction b n arbitrary: acc rest rule: show_base.induct)
  case (1 b n)
  show ?case
  proof (cases "n < b")
    case True
    with "1.prems" show ?thesis by (simp add: show_base.simps [of b n])
  next
    case False
    with "1.prems" have "read_digits b acc (show_base b n @ rest) =
        read_digits b (acc * b ^ length (show_base b (n div b)) + n div b)
          (digit_char (n mod b) # rest)"
      by (simp add: show_base.simps [of b n] "1.IH")
    moreover have "n mod b < b" using "1.prems" by simp
    ultimately show ?thesis
      using False "1.prems" by (simp add: show_base.simps [of b n] algebra_simps)
  qed
qed

lemma length_show_base [fmt]:
  "2 \<le> b \<Longrightarrow> n < b ^ Suc k \<Longrightarrow> length (show_base b n) \<le> Suc k"
proof (induction k arbitrary: n)
  case 0
  then show ?case by (simp add: show_base.simps [of b n])
next
  case (Suc k)
  then have "n div b < b ^ Suc k"
    by (simp add: less_mult_imp_div_less mult.commute)
  with Suc have "length (show_base b (n div b)) \<le> Suc k" by simp
  then show ?case by (subst show_base.simps) simp
qed

lemma digit_char_eq_iff [simp]:
  "d < 16 \<Longrightarrow> e < 16 \<Longrightarrow> digit_char d = digit_char e \<longleftrightarrow> d = e"
  by (metis digit_val_char option.inject)

lemma show_base_eq_iff:
  assumes "2 \<le> b" "b \<le> 16"
  shows "show_base b m = show_base b n \<longleftrightarrow> m = n"
proof
  assume "show_base b m = show_base b n"
  with read_show_base [OF assms, of 0 m "[]"] read_show_base [OF assms, of 0 n "[]"]
  show "m = n" by simp
qed simp

section \<open>snprintf\<close>

text \<open>
  \<open>snprintf(buffer, size, \<dots>)\<close> with \<open>size > 0\<close>: the buffer receives the first
  \<open>size - 1\<close> characters of the formatted text, the call returns the full length. A C string is
  modelled by its characters before the terminating NUL.
\<close>

definition snprintf :: "nat \<Rightarrow> string \<Rightarrow> string \<times> int" where
  "snprintf sz s = (take (sz - 1) s, int (length s))"

lemma snprintf_fits [fmt]: "length s < sz \<Longrightarrow> snprintf sz s = (s, int (length s))"
  by (simp add: snprintf_def)

lemma snprintf_bound: "0 < sz \<Longrightarrow> length (fst (snprintf sz s)) < sz"
  by (simp add: snprintf_def)

end
