(* ===== verification/Sense.thy ===== *)
theory Sense
  imports Prelude
begin

text \<open>
  The data model of \<open>include/sense.h\<close> and the routines of \<open>src/sense_utils.c\<close> that do not
  format measurements: sensor types, sensor names, decoding of sensor data, and the registry
  primitives of the telemetry daemon (\<open>sensorExists\<close>, \<open>updateRegistry\<close>, \<open>getSensor_ID\<close>).
  A pointer argument the code compares with \<open>NULL\<close> is an \<open>option\<close>; a return value \<open>-1\<close>
  with nothing written is \<open>None\<close>.
\<close>

section \<open>sense.h\<close>

definition SENSORS_LIMIT_MAX :: nat where "SENSORS_LIMIT_MAX = 128"
definition SENSOR_NAME_SIZE :: nat where "SENSOR_NAME_SIZE = 13"
definition SENSOR_INACTIVE_SECS_MAX :: int where "SENSOR_INACTIVE_SECS_MAX = 30"

record sensor_timespec_t =
  tv_sec :: int
  tv_nsec :: int

definition TEMPERATURE_SCALE :: int where "TEMPERATURE_SCALE = 10"
definition PRESSURE_SCALE :: int where "PRESSURE_SCALE = 100"
definition VOLTAGE_SCALE :: int where "VOLTAGE_SCALE = 100"
definition CURRENT_SCALE :: int where "CURRENT_SCALE = 100"
definition POWER_SCALE :: int where "POWER_SCALE = 10"
definition TORQUE_SCALE :: int where "TORQUE_SCALE = 10"
definition PROXIMITY_SCALE :: int where "PROXIMITY_SCALE = 10"

lemmas scale_defs = TEMPERATURE_SCALE_def PRESSURE_SCALE_def VOLTAGE_SCALE_def CURRENT_SCALE_def
  POWER_SCALE_def TORQUE_SCALE_def PROXIMITY_SCALE_def

text \<open>
  \<open>SENSOR_TYPE_ZERO\<close> is the all-zero representation that a zero-initialised \<open>Sensor_t\<close> holds;
  it is none of the enumerators of \<open>SensorType_e\<close> and takes the \<open>default\<close> branch of every
  \<open>switch\<close>.
\<close>

datatype SensorType_e =
    SENSOR_TYPE_TEMPPRESS
  | SENSOR_TYPE_POWCURRVOLT
  | SENSOR_TYPE_TORQUE
  | SENSOR_TYPE_PROXIMITY
  | SENSOR_TYPE_UNSUPPORTED
  | SENSOR_TYPE_ZERO

datatype SensorState_e = SENSOR_FRAME_DEFAULT | SENSOR_OFFLINE | SENSOR_ONLINE

datatype SensorFrameType_e = SENSOR_HEARTBEAT | SENSOR_DATA

text \<open>
  The union \<open>SensorData_u\<close> is twelve bytes, kept as three 32-bit words at offsets 0, 4 and 8;
  the members of \<open>TempPress_t\<close>, \<open>PowCurrVolt_t\<close>, \<open>Torque_t\<close> and \<open>Proximity_t\<close>
  overlay them. The members read a word as \<open>int32_t\<close> or \<open>uint32_t\<close>.
\<close>

record SensorData_u =
  word0 :: u32
  word4 :: u32
  word8 :: u32

definition temppress_temperature :: "SensorData_u \<Rightarrow> int" where
  "temppress_temperature d = sint (word0 d)"
definition temppress_pressure :: "SensorData_u \<Rightarrow> u32" where
  "temppress_pressure d = word4 d"
definition powcurrvolt_power :: "SensorData_u \<Rightarrow> int" where
  "powcurrvolt_power d = sint (word0 d)"
definition powcurrvolt_current :: "SensorData_u \<Rightarrow> int" where
  "powcurrvolt_current d = sint (word4 d)"
definition powcurrvolt_voltage :: "SensorData_u \<Rightarrow> int" where
  "powcurrvolt_voltage d = sint (word8 d)"
definition tor_torque :: "SensorData_u \<Rightarrow> int" where
  "tor_torque d = sint (word0 d)"
definition prox_proximity :: "SensorData_u \<Rightarrow> u32" where
  "prox_proximity d = word0 d"

record Sensor_t =
  s_data :: SensorData_u
  s_timestamp :: sensor_timespec_t
  s_last_seen_time :: sensor_timespec_t
  s_id :: u16
  s_name :: string
  s_type :: SensorType_e
  s_state :: SensorState_e
  s_frame_type :: SensorFrameType_e

text \<open>
  \<open>sizeof(Sensor_t)\<close> under the LP64 ABI: the members are placed in order, each at the next
  multiple of its alignment, and the whole is padded to the largest alignment.
\<close>

definition align_up :: "nat \<Rightarrow> nat \<Rightarrow> nat" where
  "align_up a off = (off + a - 1) div a * a"

definition struct_size :: "(nat \<times> nat) list \<Rightarrow> nat" where
  "struct_size members =
     align_up (Max (set (1 # map snd members)))
       (foldl (\<lambda>off (sz, a). align_up a off + sz) 0 members)"

definition Sensor_t_layout :: "(nat \<times> nat) list" where
  "Sensor_t_layout =
     [(12, 4), (16, 8), (16, 8), (2, 2), (SENSOR_NAME_SIZE, 1), (4, 4), (4, 4), (4, 4)]"

definition sizeof_Sensor_t :: nat where
  "sizeof_Sensor_t = struct_size Sensor_t_layout"

lemma sizeof_Sensor_t_eq [simp]: "sizeof_Sensor_t = 80"
  by (simp add: sizeof_Sensor_t_def struct_size_def Sensor_t_layout_def align_up_def
      SENSOR_NAME_SIZE_def)

definition zero_timespec :: sensor_timespec_t where
  "zero_timespec = \<lparr>tv_sec = 0, tv_nsec = 0\<rparr>"

definition zero_data :: SensorData_u where
  "zero_data = \<lparr>word0 = 0, word4 = 0, word8 = 0\<rparr>"

text \<open>The zero-initialised frame: \<open>Sensor_t sensor_frame = {0}\<close> and \<open>empty_sensor\<close>.\<close>

definition zero_sensor :: Sensor_t where
  "zero_sensor =
     \<lparr>s_data = zero_data, s_timestamp = zero_timespec, s_last_seen_time = zero_timespec,
      s_id = 0, s_name = [], s_type = SENSOR_TYPE_ZERO, s_state = SENSOR_FRAME_DEFAULT,
      s_frame_type = SENSOR_HEARTBEAT\<rparr>"

section \<open>sense\_utils.c: types and names\<close>

definition SENSOR_NAME_3_TEMPRESS :: string where "SENSOR_NAME_3_TEMPRESS = ''TPS''"
definition SENSOR_NAME_4_POWCURRVOLT :: string where "SENSOR_NAME_4_POWCURRVOLT = ''PCVS''"
definition SENSOR_NAME_5_TORQUE :: string where "SENSOR_NAME_5_TORQUE = ''TORQS''"
definition SENSOR_NAME_5_PROXIMITY :: string where "SENSOR_NAME_5_PROXIMITY = ''PROXS''"

lemmas sensor_name_defs = SENSOR_NAME_3_TEMPRESS_def SENSOR_NAME_4_POWCURRVOLT_def
  SENSOR_NAME_5_TORQUE_def SENSOR_NAME_5_PROXIMITY_def

definition findSensorType :: "byte \<Rightarrow> SensorType_e" where
  "findSensorType t =
     (if t = 0x1B then SENSOR_TYPE_TEMPPRESS
      else if t = 0x2B then SENSOR_TYPE_POWCURRVOLT
      else if t = 0x4B then SENSOR_TYPE_TORQUE
      else if t = 0x8B then SENSOR_TYPE_PROXIMITY
      else SENSOR_TYPE_UNSUPPORTED)"

text \<open>The base of a name; \<open>None\<close> is the \<open>default\<close> branch of the \<open>switch\<close>.\<close>

fun name_base :: "SensorType_e \<Rightarrow> string option" where
  "name_base SENSOR_TYPE_POWCURRVOLT = Some SENSOR_NAME_4_POWCURRVOLT"
| "name_base SENSOR_TYPE_PROXIMITY = Some SENSOR_NAME_5_PROXIMITY"
| "name_base SENSOR_TYPE_TEMPPRESS = Some SENSOR_NAME_3_TEMPRESS"
| "name_base SENSOR_TYPE_TORQUE = Some SENSOR_NAME_5_TORQUE"
| "name_base _ = None"

definition nameSensor :: "string option \<Rightarrow> u16 \<Rightarrow> SensorType_e \<Rightarrow> string option" where
  "nameSensor str i t =
     (case str of
        None \<Rightarrow> None
      | Some _ \<Rightarrow>
          (case name_base t of
             None \<Rightarrow> Some []
           | Some base \<Rightarrow>
               Some (fst (snprintf SENSOR_NAME_SIZE
                 (base @ ''_0X'' @ show_base 16 (unat i))))))"

section \<open>sense\_utils.c: sensor data\<close>

definition read_le32 :: "byte list \<Rightarrow> nat \<Rightarrow> u32" where
  "read_le32 raw k = le32 (raw ! k) (raw ! (k + 1)) (raw ! (k + 2)) (raw ! (k + 3))"

fun recordSensorData ::
  "SensorData_u option \<Rightarrow> byte list option \<Rightarrow> u16 \<Rightarrow> SensorType_e \<Rightarrow> SensorData_u option" where
  "recordSensorData None _ _ _ = None"
| "recordSensorData _ None _ _ = None"
| "recordSensorData (Some target) (Some raw) byte_size SENSOR_TYPE_POWCURRVOLT =
     (if byte_size \<noteq> 12 then None
      else Some (target\<lparr>word0 := read_le32 raw 0, word4 := read_le32 raw 4,
             word8 := read_le32 raw 8\<rparr>))"
| "recordSensorData (Some target) (Some raw) byte_size SENSOR_TYPE_TEMPPRESS =
     (if byte_size \<noteq> 8 then None
      else Some (target\<lparr>word0 := read_le32 raw 0, word4 := read_le32 raw 4\<rparr>))"
| "recordSensorData (Some target) (Some raw) byte_size SENSOR_TYPE_PROXIMITY =
     (if byte_size \<noteq> 4 then None else Some (target\<lparr>word0 := read_le32 raw 0\<rparr>))"
| "recordSensorData (Some target) (Some raw) byte_size SENSOR_TYPE_TORQUE =
     (if byte_size \<noteq> 4 then None else Some (target\<lparr>word0 := read_le32 raw 0\<rparr>))"
| "recordSensorData (Some target) (Some raw) byte_size _ = None"

section \<open>sense\_utils.c: registry primitives\<close>

text \<open>The search loop of \<open>sensorExists\<close>: result value and \<open>*new_sensor_flag\<close>.\<close>

function sensorExists_loop ::
  "Sensor_t \<Rightarrow> Sensor_t list \<Rightarrow> nat \<Rightarrow> nat \<Rightarrow> int \<times> int" where
  "sensorExists_loop frame registry count idx =
     (if idx < count then
        (if s_id (registry ! idx) = s_id frame \<and> s_type (registry ! idx) = s_type frame
         then (int idx, 0)
         else sensorExists_loop frame registry count (Suc idx))
      else (int count, 1))"
  by pat_completeness auto
termination
  by (relation "measure (\<lambda>(frame, registry, count, idx). count - idx)") auto

declare sensorExists_loop.simps [simp del]

definition sensorExists ::
  "Sensor_t option \<Rightarrow> Sensor_t list option \<Rightarrow> nat \<Rightarrow> int option \<Rightarrow> int \<times> int option" where
  "sensorExists frame registry count new_sensor_flag =
     (case (frame, registry, new_sensor_flag) of
        (Some f, Some r, Some _) \<Rightarrow>
          (let (idx, flag) = sensorExists_loop f r count 0 in (idx, Some flag))
      | _ \<Rightarrow> (-1, new_sensor_flag))"

definition updateRegistry :: "Sensor_t option \<Rightarrow> Sensor_t option \<Rightarrow> Sensor_t option" where
  "updateRegistry source target =
     (case (source, target) of
        (Some src, Some tgt) \<Rightarrow>
          (let tgt1 = (if s_frame_type src = SENSOR_DATA
                       then tgt\<lparr>s_data := s_data src, s_timestamp := s_timestamp src\<rparr>
                       else tgt)
           in Some (tgt1\<lparr>s_last_seen_time := s_last_seen_time src, s_id := s_id src,
                s_type := s_type src, s_state := SENSOR_ONLINE,
                s_frame_type := s_frame_type src, s_name := s_name src\<rparr>))
      | _ \<Rightarrow> None)"

function getSensor_ID_loop :: "u16 \<Rightarrow> Sensor_t list \<Rightarrow> nat \<Rightarrow> nat \<Rightarrow> Sensor_t" where
  "getSensor_ID_loop i registry count idx =
     (if idx < count then
        (if s_id (registry ! idx) = i then registry ! idx
         else getSensor_ID_loop i registry count (Suc idx))
      else zero_sensor)"
  by pat_completeness auto
termination
  by (relation "measure (\<lambda>(i, registry, count, idx). count - idx)") auto

declare getSensor_ID_loop.simps [simp del]

definition getSensor_ID :: "u16 \<Rightarrow> Sensor_t list option \<Rightarrow> nat \<Rightarrow> Sensor_t" where
  "getSensor_ID i registry count =
     (case registry of
        None \<Rightarrow> zero_sensor
      | Some r \<Rightarrow> getSensor_ID_loop i r count 0)"

section \<open>Supported types and their data\<close>

text \<open>
  The four supported types, the length \<open>recordSensorData\<close> asks of their data, and the
  encoding of a reading that a sensor sends: the words of the union the type uses, little-endian.
\<close>

definition supported :: "SensorType_e \<Rightarrow> bool" where
  "supported t \<longleftrightarrow> name_base t \<noteq> None"

fun type_byte :: "SensorType_e \<Rightarrow> byte" where
  "type_byte SENSOR_TYPE_TEMPPRESS = 0x1B"
| "type_byte SENSOR_TYPE_POWCURRVOLT = 0x2B"
| "type_byte SENSOR_TYPE_TORQUE = 0x4B"
| "type_byte SENSOR_TYPE_PROXIMITY = 0x8B"
| "type_byte SENSOR_TYPE_UNSUPPORTED = 0x8C"
| "type_byte SENSOR_TYPE_ZERO = 0"

fun data_len :: "SensorType_e \<Rightarrow> nat" where
  "data_len SENSOR_TYPE_POWCURRVOLT = 12"
| "data_len SENSOR_TYPE_TEMPPRESS = 8"
| "data_len SENSOR_TYPE_PROXIMITY = 4"
| "data_len SENSOR_TYPE_TORQUE = 4"
| "data_len _ = 0"

fun encode_data :: "SensorType_e \<Rightarrow> SensorData_u \<Rightarrow> byte list" where
  "encode_data SENSOR_TYPE_POWCURRVOLT d =
     bytes_le 4 (word0 d) @ bytes_le 4 (word4 d) @ bytes_le 4 (word8 d)"
| "encode_data SENSOR_TYPE_TEMPPRESS d = bytes_le 4 (word0 d) @ bytes_le 4 (word4 d)"
| "encode_data SENSOR_TYPE_PROXIMITY d = bytes_le 4 (word0 d)"
| "encode_data SENSOR_TYPE_TORQUE d = bytes_le 4 (word0 d)"
| "encode_data _ d = []"

text \<open>The words of \<open>d\<close> that the type uses, over the words of \<open>old\<close>.\<close>

fun merge_data :: "SensorType_e \<Rightarrow> SensorData_u \<Rightarrow> SensorData_u \<Rightarrow> SensorData_u" where
  "merge_data SENSOR_TYPE_POWCURRVOLT old d = d"
| "merge_data SENSOR_TYPE_TEMPPRESS old d = d\<lparr>word8 := word8 old\<rparr>"
| "merge_data SENSOR_TYPE_PROXIMITY old d = old\<lparr>word0 := word0 d\<rparr>"
| "merge_data SENSOR_TYPE_TORQUE old d = old\<lparr>word0 := word0 d\<rparr>"
| "merge_data _ old d = old"

lemma supported_simps [simp]:
  "supported SENSOR_TYPE_TEMPPRESS" "supported SENSOR_TYPE_POWCURRVOLT"
  "supported SENSOR_TYPE_TORQUE" "supported SENSOR_TYPE_PROXIMITY"
  "\<not> supported SENSOR_TYPE_UNSUPPORTED" "\<not> supported SENSOR_TYPE_ZERO"
  by (simp_all add: supported_def)

lemma findSensorType_type_byte [wire, simp]:
  "supported t \<Longrightarrow> findSensorType (type_byte t) = t"
  by (cases t) (simp_all add: findSensorType_def)

lemma findSensorType_supported:
  "findSensorType b \<noteq> SENSOR_TYPE_UNSUPPORTED \<longleftrightarrow> supported (findSensorType b)"
  by (auto simp: findSensorType_def)

lemma length_encode_data [wire, simp]: "length (encode_data t d) = data_len t"
  by (cases t) simp_all

lemma data_len_bound: "data_len t \<le> 12"
  by (cases t) simp_all

lemma data_len_pos [simp]: "supported t \<Longrightarrow> 0 < data_len t" "supported t \<Longrightarrow> data_len t \<noteq> 0"
  by (cases t; simp)+

lemma read_le32_skip [wire, simp]:
  "read_le32 (b0 # b1 # b2 # b3 # bs) 4 = read_le32 bs 0"
  "read_le32 (b0 # b1 # b2 # b3 # bs) 8 = read_le32 bs 4"
  by (simp_all add: read_le32_def eval_nat_numeral)

lemma read_le32_bytes [wire, simp]: "read_le32 (bytes_le 4 w @ rest) 0 = w"
  by (simp add: read_le32_def bytes_le_32 nth_Cons')

lemma read_le32_bytes_skip [wire, simp]:
  "read_le32 (bytes_le 4 (v :: u32) @ rest) 4 = read_le32 rest 0"
  "read_le32 (bytes_le 4 (v :: u32) @ rest) 8 = read_le32 rest 4"
  by (simp_all add: bytes_le_32)

lemma recordSensorData_encode [wire, simp]:
  assumes "supported t"
  shows "recordSensorData (Some old) (Some (encode_data t d @ rest)) (of_nat (data_len t)) t =
    Some (merge_data t old d)"
  using assms by (cases t) simp_all

lemma recordSensorData_length:
  assumes "recordSensorData target raw n t = Some d"
  shows "supported t \<and> n = of_nat (data_len t)"
  using assms by (cases "(target, raw, n, t)" rule: recordSensorData.cases) (auto split: if_splits)

section \<open>Sensor names\<close>

lemma hex16_length: "length (show_base 16 (unat (i :: u16))) \<le> 4"
proof -
  have "unat i < 16 ^ Suc 3"
    using unsigned_less [of i, where ?'a = nat] by simp
  then show ?thesis
    using length_show_base [of 16 "unat i" 3] by simp
qed

lemma nameSensor_full [fmt]:
  assumes "name_base t = Some base"
  shows "nameSensor (Some buf) i t = Some (base @ ''_0X'' @ show_base 16 (unat i))"
proof -
  have "length base \<le> 5"
    using assms by (cases t) (auto simp: sensor_name_defs)
  then have "length (base @ ''_0X'' @ show_base 16 (unat i)) < SENSOR_NAME_SIZE"
    using hex16_length [of i] by (simp add: SENSOR_NAME_SIZE_def)
  with assms show ?thesis
    by (simp add: nameSensor_def snprintf_fits)
qed

lemma name_base_prefix:
  assumes "name_base t = Some b" "name_base t' = Some b'" "b @ ''_0X'' @ x = b' @ ''_0X'' @ x'"
  shows "t = t' \<and> x = x'"
  using assms by (cases t; cases t') (auto simp: sensor_name_defs)

section \<open>Registry search\<close>

abbreviation same_sensor :: "Sensor_t \<Rightarrow> Sensor_t \<Rightarrow> bool" where
  "same_sensor a b \<equiv> s_id a = s_id b \<and> s_type a = s_type b"

lemma sensorExists_loop_found:
  assumes "idx \<le> k" "k < count" "same_sensor (registry ! k) frame"
    and "\<And>j. idx \<le> j \<Longrightarrow> j < k \<Longrightarrow> \<not> same_sensor (registry ! j) frame"
  shows "sensorExists_loop frame registry count idx = (int k, 0)"
  using assms
proof (induction frame registry count idx rule: sensorExists_loop.induct)
  case (1 frame registry count idx)
  show ?case
  proof (cases "idx = k")
    case True
    with "1.prems" show ?thesis by (simp add: sensorExists_loop.simps [of frame])
  next
    case False
    with "1.prems" have "\<not> same_sensor (registry ! idx) frame" by simp
    with False "1.prems" "1.IH" show ?thesis
      by (simp add: sensorExists_loop.simps [of frame registry count idx])
  qed
qed

lemma sensorExists_loop_new:
  assumes "\<And>j. idx \<le> j \<Longrightarrow> j < count \<Longrightarrow> \<not> same_sensor (registry ! j) frame"
  shows "sensorExists_loop frame registry count idx = (int count, 1)"
  using assms
proof (induction frame registry count idx rule: sensorExists_loop.induct)
  case (1 frame registry count idx)
  show ?case
  proof (cases "idx < count")
    case True
    with "1.prems" have "\<not> same_sensor (registry ! idx) frame" by simp
    with True "1.prems" "1.IH" show ?thesis
      by (simp add: sensorExists_loop.simps [of frame registry count idx])
  qed (simp add: sensorExists_loop.simps)
qed

text \<open>Either the least matching slot, or the first free slot with the flag set.\<close>

lemma sensorExists_cases:
  obtains
    (found) k where "k < count" "same_sensor (registry ! k) frame"
      "\<And>j. j < k \<Longrightarrow> \<not> same_sensor (registry ! j) frame"
      "sensorExists (Some frame) (Some registry) count (Some x) = (int k, Some 0)"
  | (new) "\<And>j. j < count \<Longrightarrow> \<not> same_sensor (registry ! j) frame"
      "sensorExists (Some frame) (Some registry) count (Some x) = (int count, Some 1)"
proof (cases "\<exists>k < count. same_sensor (registry ! k) frame")
  case True
  define k where "k = (LEAST k. k < count \<and> same_sensor (registry ! k) frame)"
  have k: "k < count \<and> same_sensor (registry ! k) frame"
    unfolding k_def by (rule LeastI_ex) (use True in blast)
  have least: "\<not> same_sensor (registry ! j) frame" if "j < k" for j
    using not_less_Least [of j "\<lambda>k. k < count \<and> same_sensor (registry ! k) frame"] that k
    by (auto simp: k_def)
  have "sensorExists_loop frame registry count 0 = (int k, 0)"
    using k least by (intro sensorExists_loop_found) auto
  then have "sensorExists (Some frame) (Some registry) count (Some x) = (int k, Some 0)"
    by (simp add: sensorExists_def)
  with k least show thesis by (intro found) auto
next
  case False
  then have "sensorExists_loop frame registry count 0 = (int count, 1)"
    by (intro sensorExists_loop_new) auto
  then have "sensorExists (Some frame) (Some registry) count (Some x) = (int count, Some 1)"
    by (simp add: sensorExists_def)
  with False show thesis by (intro new) auto
qed

lemma getSensor_ID_loop_first:
  assumes "idx \<le> k" "k < count" "s_id (registry ! k) = i"
    and "\<And>j. idx \<le> j \<Longrightarrow> j < k \<Longrightarrow> s_id (registry ! j) \<noteq> i"
  shows "getSensor_ID_loop i registry count idx = registry ! k"
  using assms
proof (induction i registry count idx rule: getSensor_ID_loop.induct)
  case (1 i registry count idx)
  show ?case
  proof (cases "idx = k")
    case True
    with "1.prems" show ?thesis by (simp add: getSensor_ID_loop.simps)
  next
    case False
    with "1.prems" have "s_id (registry ! idx) \<noteq> i" by simp
    with False "1.prems" "1.IH" show ?thesis
      by (simp add: getSensor_ID_loop.simps [of i registry count idx])
  qed
qed

lemma getSensor_ID_loop_none:
  assumes "\<And>j. idx \<le> j \<Longrightarrow> j < count \<Longrightarrow> s_id (registry ! j) \<noteq> i"
  shows "getSensor_ID_loop i registry count idx = zero_sensor"
  using assms
proof (induction i registry count idx rule: getSensor_ID_loop.induct)
  case (1 i registry count idx)
  then show ?case
    by (cases "idx < count") (auto simp: getSensor_ID_loop.simps [of i registry count idx])
qed

section \<open>Properties\<close>

lemma supported_name_base: "supported t \<Longrightarrow> \<exists>base. name_base t = Some base"
  by (simp add: supported_def)

lemma nameSensor_eq_iff:
  assumes "supported t" "supported t'"
  shows "nameSensor (Some b) i t = nameSensor (Some b') i' t' \<longleftrightarrow> i = i' \<and> t = t'"
proof
  obtain base base' where "name_base t = Some base" "name_base t' = Some base'"
    using assms supported_name_base by blast
  note names = this nameSensor_full [OF this(1)] nameSensor_full [OF this(2)]
  assume "nameSensor (Some b) i t = nameSensor (Some b') i' t'"
  then have "base @ ''_0X'' @ show_base 16 (unat i) = base' @ ''_0X'' @ show_base 16 (unat i')"
    unfolding names(3,4) by (simp only: option.inject)
  from name_base_prefix [OF names(1,2) this] show "i = i' \<and> t = t'" by (simp add: show_base_eq_iff word_unat_eq_iff)
qed (auto simp: nameSensor_def)

lemma nameSensor_length:
  assumes "nameSensor (Some b) i t = Some nm"
  shows "length nm < SENSOR_NAME_SIZE"
  using assms snprintf_bound [of SENSOR_NAME_SIZE] 
  by (auto simp: nameSensor_def SENSOR_NAME_SIZE_def split: option.splits)

text \<open>
  C29: Sensor names are unique: for the four supported types, two sensors get the same name in the
  13-byte buffer only when their id and type agree, so no name is cut short into another one.
\<close>

theorem sensor_names_unique:
  assumes "supported t" "supported t'"
  shows "nameSensor (Some b) i t = nameSensor (Some b') i' t' \<longleftrightarrow> i = i' \<and> t = t'"
  using assms by (rule nameSensor_eq_iff)

theorem sensor_names_unique_witness:
  "nameSensor (Some []) 0xFFFF SENSOR_TYPE_TORQUE \<noteq> nameSensor (Some []) 0xFFFE SENSOR_TYPE_TORQUE"
  using sensor_names_unique [of SENSOR_TYPE_TORQUE SENSOR_TYPE_TORQUE "[]" "0xFFFF" "[]" "0xFFFE"]
  by simp

text \<open>
  C28: Decoding inverts encoding: for a supported type, \<open>recordSensorData\<close> on the little-endian
  bytes of a reading (whatever follows them in the buffer) sets exactly the words of the union
  that the type uses and leaves the others.
\<close>

theorem record_inverts_encode:
  assumes "supported t"
  shows "recordSensorData (Some old) (Some (encode_data t d @ rest)) (of_nat (data_len t)) t =
    Some (merge_data t old d)"
  using assms by (rule recordSensorData_encode)

theorem record_inverts_encode_witness:
  "recordSensorData (Some zero_data)
     (Some (encode_data SENSOR_TYPE_TEMPPRESS \<lparr>word0 = -5, word4 = 101325, word8 = 9\<rparr> @ [7])) 8
     SENSOR_TYPE_TEMPPRESS = Some \<lparr>word0 = -5, word4 = 101325, word8 = 0\<rparr>"
  using record_inverts_encode [of SENSOR_TYPE_TEMPPRESS zero_data
      "\<lparr>word0 = -5, word4 = 101325, word8 = 9\<rparr>" "[7]"]
  by (simp add: zero_data_def)

end
