(* ===== verification/Process_Init.thy ===== *)
theory Process_Init
  imports Prelude
begin

text \<open>
  \<open>src/process_init.c\<close>: the start-up of every daemon and its signal handler. A process is
  the part of its kernel state that the code touches; the results of the system calls are given by
  a record, one field per call.
\<close>

definition SIGINT :: int where "SIGINT = 2"
definition SIGTERM :: int where "SIGTERM = 15"

lemmas signo_defs = SIGINT_def SIGTERM_def

text \<open>\<open>signalHandler\<close> acts on the flag \<open>exitRQ\<close> only.\<close>

definition signalHandler :: "int \<Rightarrow> bool \<Rightarrow> bool" where
  "signalHandler signo exitRQ = (if signo = SIGINT \<or> signo = SIGTERM then True else exitRQ)"

lemma signalHandler_sets [simp]:
  "signalHandler SIGINT e" "signalHandler SIGTERM e" "signalHandler s True"
  by (simp_all add: signalHandler_def)

record process =
  handled_signals :: "int set"
  session_leader :: bool
  proc_umask :: nat
  proc_cwd :: string
  fds :: "int \<rightharpoonup> string"

record init_results =
  sigaction_int :: int
  sigaction_term :: int
  fork_result :: int
  setsid_result :: int
  chdir_result :: int
  open_result :: int

text \<open>\<open>signals_init\<close>: \<open>sa_handler\<close> becomes \<open>signalHandler\<close> for the two signals.\<close>

definition signals_init :: "init_results \<Rightarrow> process \<Rightarrow> int \<times> process" where
  "signals_init env p =
     (if sigaction_int env \<noteq> 0 then (-1, p)
      else let p1 = p\<lparr>handled_signals := insert SIGINT (handled_signals p)\<rparr> in
      if sigaction_term env \<noteq> 0 then (-1, p1)
      else (0, p1\<lparr>handled_signals := insert SIGTERM (handled_signals p1)\<rparr>))"

text \<open>
  \<open>daemon_init\<close> either ends the calling process (\<open>exit(EXIT_SUCCESS)\<close> in the parent) or
  returns in the child.
\<close>

datatype init_outcome = Exit int | Ret int

definition DEVNULL :: string where "DEVNULL = ''/dev/null''"

definition dup2 :: "int \<Rightarrow> int \<Rightarrow> process \<Rightarrow> process" where
  "dup2 oldfd newfd p =
     (case fds p oldfd of None \<Rightarrow> p | Some f \<Rightarrow> p\<lparr>fds := (fds p)(newfd \<mapsto> f)\<rparr>)"

definition close_fd :: "int \<Rightarrow> process \<Rightarrow> process" where
  "close_fd fd p = p\<lparr>fds := (fds p)(fd := None)\<rparr>"

definition redirect_stdio :: "int \<Rightarrow> process \<Rightarrow> process" where
  "redirect_stdio devnull p =
     (let p1 = dup2 devnull 2 (dup2 devnull 1 (dup2 devnull 0 p)) in
      if devnull > 2 then close_fd devnull p1 else p1)"

definition daemon_init :: "init_results \<Rightarrow> process \<Rightarrow> init_outcome \<times> process" where
  "daemon_init env p =
     (if fork_result env < 0 then (Ret (-1), p)
      else if fork_result env > 0 then (Exit 0, p)
      else if setsid_result env < 0 then (Ret (-1), p)
      else let p1 = p\<lparr>session_leader := True, proc_umask := 0\<rparr> in
      if chdir_result env = -1 then (Ret (-1), p1)
      else let p2 = p1\<lparr>proc_cwd := ''/''\<rparr> in
      if open_result env = -1 then (Ret (-1), p2)
      else let devnull = open_result env;
               p3 = p2\<lparr>fds := (fds p2)(devnull \<mapsto> DEVNULL)\<rparr>
           in (Ret 0, redirect_stdio devnull p3))"

lemma fds_redirect_stdio:
  assumes "fds p devnull = Some f" "0 \<le> devnull"
  shows "fds (redirect_stdio devnull p) =
    (if devnull > 2 then (fds p)(0 \<mapsto> f, 1 \<mapsto> f, 2 \<mapsto> f, devnull := None)
     else (fds p)(0 \<mapsto> f, 1 \<mapsto> f, 2 \<mapsto> f))"
  using assms by (auto simp: redirect_stdio_def dup2_def close_fd_def Let_def fun_eq_iff)

lemma redirect_stdio_frame [simp]:
  "session_leader (redirect_stdio d p) = session_leader p"
  "proc_umask (redirect_stdio d p) = proc_umask p"
  "proc_cwd (redirect_stdio d p) = proc_cwd p"
  "handled_signals (redirect_stdio d p) = handled_signals p"
  by (auto simp: redirect_stdio_def dup2_def close_fd_def Let_def split: option.splits)

text \<open>
  C40: In the child, when every call succeeds and \<open>open\<close> returns a descriptor that was free
  (or one of the three standard ones), \<open>daemon_init\<close> returns 0 in a new session with umask 0 and
  working directory \<open>/\<close>; descriptors 0, 1 and 2 refer to \<open>/dev/null\<close>, every other descriptor
  is as before: the temporary descriptor does not leak.
\<close>

theorem daemon_init_detaches:
  assumes "fork_result env = 0" "0 \<le> setsid_result env" "chdir_result env \<noteq> -1"
    and "0 \<le> open_result env" "open_result env \<le> 2 \<or> fds p (open_result env) = None"
  shows "fst (daemon_init env p) = Ret 0 \<and>
    (let p' = snd (daemon_init env p) in
       session_leader p' \<and> proc_umask p' = 0 \<and> proc_cwd p' = ''/'' \<and>
       fds p' = (fds p)(0 \<mapsto> DEVNULL, 1 \<mapsto> DEVNULL, 2 \<mapsto> DEVNULL))"
  using assms by (auto simp: daemon_init_def Let_def fds_redirect_stdio fun_eq_iff)

definition example_process :: process where
  "example_process = \<lparr>handled_signals = {}, session_leader = False, proc_umask = 18,
     proc_cwd = ''/root'', fds = [0 \<mapsto> ''tty'', 1 \<mapsto> ''tty'', 2 \<mapsto> ''tty'']\<rparr>"

definition example_init :: init_results where
  "example_init = \<lparr>sigaction_int = 0, sigaction_term = 0, fork_result = 0, setsid_result = 7,
     chdir_result = 0, open_result = 3\<rparr>"

theorem daemon_init_detaches_witness:
  "fst (daemon_init example_init example_process) = Ret 0 \<and>
   fds (snd (daemon_init example_init example_process)) =
     [0 \<mapsto> DEVNULL, 1 \<mapsto> DEVNULL, 2 \<mapsto> DEVNULL]"
proof -
  have "fork_result example_init = 0" "0 \<le> setsid_result example_init"
    "chdir_result example_init \<noteq> -1" "0 \<le> open_result example_init"
    "open_result example_init \<le> 2 \<or> fds example_process (open_result example_init) = None"
    by (simp_all add: example_init_def example_process_def)
  from daemon_init_detaches [OF this] show ?thesis
    by (auto simp: Let_def example_process_def fun_eq_iff)
qed

end
