(* ===== verification/Posix_IO.thy ===== *)
theory Posix_IO
  imports Process_Init
begin

text \<open>
  The POSIX calls the daemons and the host programs block in, and the transfer loops built on
  them. A call's results are scripted: the environment is a finite list of events, consumed in
  the order of the calls, and a call for which no event is left is waiting (\<open>Blocked\<close>), so every
  loop is a total function and "the loop has not finished" is a value.

  \<^item> \<open>send_event\<close>: results of \<open>send\<close>/\<open>write\<close>. \<open>Sent n\<close> accepts the first
    \<open>min n len\<close> bytes and returns that number (0 for \<open>n = 0\<close>).
  \<^item> \<open>net_event\<close>: what happens at a connected socket, in order: bytes arrive, the peer
    closes, a signal is handled by the blocked thread (the call returns \<open>EINTR\<close>) or by another
    thread of the process (only \<open>exitRQ\<close> changes), or the call fails.
  \<^item> a POSIX message queue with its attributes and its messages.
\<close>

datatype 'a io = Return 'a | Blocked

section \<open>Sending\<close>

datatype send_event = Sent nat | SendIntr | SendFail

lemma send_cases:
  obtains (empty) "buf = []"
  | (wait) "buf \<noteq> []" "evs = []"
  | (intr) es where "buf \<noteq> []" "evs = SendIntr # es"
  | (fail) es where "buf \<noteq> []" "evs = SendFail # es"
  | (zero) es where "buf \<noteq> []" "evs = Sent 0 # es"
  | (sent) n es where "buf \<noteq> []" "evs = Sent n # es" "0 < n"
proof (cases evs)
  case (Cons e es)
  then show thesis using that by (cases e) (auto intro: gr0I)
qed (use that in blast)

text \<open>
  The contract of a transfer loop, over one call's results: bytes the kernel took, in order. The
  laws describe one iteration; what a caller relies on is proved from them once.
\<close>

locale byte_sink =
  fixes transmit :: "'b list \<Rightarrow> send_event list \<Rightarrow> int io \<times> 'b list \<times> send_event list"
  assumes sink_empty: "transmit [] evs = (Return 0, [], evs)"
    and sink_wait: "buf \<noteq> [] \<Longrightarrow> transmit buf [] = (Blocked, [], [])"
    and sink_intr: "buf \<noteq> [] \<Longrightarrow> transmit buf (SendIntr # evs) = transmit buf evs"
    and sink_fail: "buf \<noteq> [] \<Longrightarrow> transmit buf (SendFail # evs) = (Return (-1), [], evs)"
    and sink_zero: "buf \<noteq> [] \<Longrightarrow> transmit buf (Sent 0 # evs) = (Return (-1), [], evs)"
    and sink_sent: "buf \<noteq> [] \<Longrightarrow> 0 < n \<Longrightarrow> transmit buf (Sent n # evs) =
      (let (r, out, rest) = transmit (drop n buf) evs in (r, take n buf @ out, rest))"
begin

lemmas sink_laws = sink_empty sink_wait sink_intr sink_fail sink_zero sink_sent

text \<open>What has been accepted is a prefix; it is everything exactly when 0 is returned.\<close>

lemma transmit_prefix:
  assumes "transmit buf evs = (r, out, rest)"
  shows "\<exists>k. out = take k buf \<and> (r = Return 0 \<longleftrightarrow> out = buf)"
  using assms
proof (induction evs arbitrary: buf r out rest)
  case Nil
  show ?case
  proof (cases "buf = []")
    case False
    with Nil show ?thesis by (auto simp: sink_wait intro: exI [of _ 0])
  qed (use Nil in \<open>simp add: sink_empty\<close>)
next
  case (Cons e es)
  show ?case
  proof (cases rule: send_cases [where buf = buf and evs = "e # es"])
    case (sent n es')
    then obtain r' out' rest' where t: "transmit (drop n buf) es = (r', out', rest')"
      by (metis list.inject prod_cases3)
    with Cons.prems sent have eq: "r = r'" "out = take n buf @ out'" by (auto simp: sink_sent)
    from Cons.IH [OF t] obtain k where k: "out' = take k (drop n buf)"
      and iff: "r' = Return 0 \<longleftrightarrow> out' = drop n buf" by blast
    have "out = take (n + k) buf" using eq k by (simp add: take_add)
    moreover have "out = buf \<longleftrightarrow> out' = drop n buf"
      using eq by (metis append_take_drop_id same_append_eq)
    ultimately show ?thesis using eq iff by blast
  qed (use Cons in \<open>auto simp: sink_laws intro: exI [of _ 0]\<close>)
qed

lemma transmit_complete: "transmit buf evs = (Return 0, out, rest) \<Longrightarrow> out = buf"
  using transmit_prefix by blast

text \<open>
  Liveness: when the kernel keeps accepting bytes, interruptions aside, until the whole buffer
  is covered, the loop returns 0.
\<close>

lemma transmit_total:
  assumes "\<And>e. e \<in> set evs \<Longrightarrow> e = SendIntr \<or> (\<exists>n. e = Sent n \<and> 0 < n)"
    and "length buf \<le> sum_list [n. Sent n \<leftarrow> evs]"
  shows "\<exists>rest. transmit buf evs = (Return 0, buf, rest)"
  using assms
proof (induction evs arbitrary: buf)
  case Nil
  then show ?case by (simp add: sink_empty)
next
  case (Cons e es)
  show ?case
  proof (cases rule: send_cases [where buf = buf and evs = "e # es"])
    case (sent n es')
    with Cons.prems have "\<exists>rest. transmit (drop n buf) es = (Return 0, drop n buf, rest)"
      by (intro Cons.IH) auto
    with sent show ?thesis by (auto simp: sink_sent)
  qed (use Cons in \<open>force simp: sink_laws\<close>)+
qed

text \<open>A transfer fails only on a failed call.\<close>

lemma transmit_failure:
  assumes "transmit buf evs = (Return (-1), out, rest)"
  shows "SendFail \<in> set evs \<or> Sent 0 \<in> set evs"
  using assms
proof (induction evs arbitrary: buf out rest)
  case Nil
  then show ?case by (cases "buf = []") (auto simp: sink_laws)
next
  case (Cons e es)
  show ?case
  proof (cases rule: send_cases [where buf = buf and evs = "e # es"])
    case (sent n es')
    with Cons.prems obtain out' where "transmit (drop n buf) es = (Return (-1), out', rest)"
      by (auto simp: sink_sent split: prod.splits)
    with Cons.IH show ?thesis by auto
  qed (use Cons in \<open>auto simp: sink_laws\<close>)
qed

lemma transmit_results:
  "fst (transmit buf evs) \<in> {Return 0, Return (-1), Blocked}"
proof (induction evs arbitrary: buf)
  case Nil
  show ?case by (cases "buf = []") (simp_all add: sink_laws)
next
  case (Cons e es)
  show ?case
  proof (cases rule: send_cases [where buf = buf and evs = "e # es"])
    case (sent n es')
    then show ?thesis using Cons.IH [of "drop n buf"] by (auto simp: sink_sent split: prod.splits)
  qed (use Cons in \<open>auto simp: sink_laws\<close>)
qed

end

subsection \<open>Loops that count the bytes sent\<close>

text \<open>
  Three of the sources' transfer loops keep the buffer and a running total
  (\<open>send(fd, buffer + total, len - total)\<close>). They share this recursion, and the recursion gives
  the contract.
\<close>

locale counting_sink =
  fixes loop :: "'b list \<Rightarrow> nat \<Rightarrow> nat \<Rightarrow> send_event list \<Rightarrow> int io \<times> 'b list \<times> send_event list"
  assumes loop_rec: "loop buffer len sent evs =
    (if sent < len then
       (case evs of
          [] \<Rightarrow> (Blocked, [], [])
        | SendIntr # es \<Rightarrow> loop buffer len sent es
        | SendFail # es \<Rightarrow> (Return (-1), [], es)
        | Sent n # es \<Rightarrow>
            (if n = 0 then (Return (-1), [], es)
             else let k = min n (len - sent);
                      (r, out, rest) = loop buffer len (sent + k) es
                  in (r, take k (drop sent buffer) @ out, rest)))
     else (Return 0, [], evs))"
begin

lemma loop_shift:
  "k \<le> length buffer \<Longrightarrow>
   loop buffer (length buffer) (k + sent) evs =
   loop (drop k buffer) (length buffer - k) sent evs"
proof (induction evs arbitrary: sent)
  case Nil
  then show ?case by (subst (1 2) loop_rec) auto
next
  case (Cons e es)
  have "k + sent < length buffer \<longleftrightarrow> sent < length buffer - k" by auto
  with Cons show ?case
    by (subst (1 2) loop_rec) (auto simp: add.assoc add.commute [of sent k] Let_def
        split: send_event.split)
qed

sublocale byte_sink "\<lambda>buffer. loop buffer (length buffer) 0"
proof
  fix buf :: "'b list" and n :: nat and evs
  assume *: "buf \<noteq> []" "0 < n"
  define k where "k = min n (length buf)"
  have drop_k: "drop k buf = drop n buf" and take_k: "take k buf = take n buf"
    by (auto simp: k_def min_def)
  have "loop buf (length buf) 0 (Sent n # evs) =
      (let (r, out, rest) = loop buf (length buf) k evs in (r, take k buf @ out, rest))"
    using * by (subst loop_rec) (simp add: k_def Let_def)
  also have "loop buf (length buf) k evs = loop (drop k buf) (length buf - k) 0 evs"
    using loop_shift [of k buf 0 evs] by (simp add: k_def)
  finally show "loop buf (length buf) 0 (Sent n # evs) =
      (let (r, out, rest) = loop (drop n buf) (length (drop n buf)) 0 evs
       in (r, take n buf @ out, rest))"
    by (simp add: drop_k take_k length_drop [symmetric] del: length_drop)
qed (subst loop_rec, simp)+

end

section \<open>Receiving\<close>

datatype net_event =
    Deliver "byte list"
  | PeerClose
  | Signal int
  | AsyncSignal int
  | NetFail

datatype recv_result = RecvBytes "byte list" | RecvEof | RecvIntr | RecvFail

record rx_state =
  rx_buf :: "byte list"
  rx_events :: "net_event list"
  rx_exit :: bool

text \<open>
  \<open>recv(fd, buf, len, 0)\<close> with \<open>len > 0\<close>: bytes that have arrived are returned at once, at most
  \<open>len\<close> of them; otherwise the call waits. A closed connection keeps returning 0.
\<close>

fun recv_wait :: "nat \<Rightarrow> net_event list \<Rightarrow> bool \<Rightarrow> recv_result io \<times> rx_state" where
  "recv_wait len [] ex = (Blocked, \<lparr>rx_buf = [], rx_events = [], rx_exit = ex\<rparr>)"
| "recv_wait len (Deliver bs # es) ex =
     (if bs = [] then recv_wait len es ex
      else (Return (RecvBytes (take len bs)),
            \<lparr>rx_buf = drop len bs, rx_events = es, rx_exit = ex\<rparr>))"
| "recv_wait len (PeerClose # es) ex =
     (Return RecvEof, \<lparr>rx_buf = [], rx_events = PeerClose # es, rx_exit = ex\<rparr>)"
| "recv_wait len (Signal sg # es) ex =
     (Return RecvIntr, \<lparr>rx_buf = [], rx_events = es, rx_exit = signalHandler sg ex\<rparr>)"
| "recv_wait len (AsyncSignal sg # es) ex = recv_wait len es (signalHandler sg ex)"
| "recv_wait len (NetFail # es) ex =
     (Return RecvFail, \<lparr>rx_buf = [], rx_events = es, rx_exit = ex\<rparr>)"

definition recv :: "nat \<Rightarrow> rx_state \<Rightarrow> recv_result io \<times> rx_state" where
  "recv len s =
     (if rx_buf s \<noteq> [] then
        (Return (RecvBytes (take len (rx_buf s))), s\<lparr>rx_buf := drop len (rx_buf s)\<rparr>)
      else recv_wait len (rx_events s) (rx_exit s))"

text \<open>What is still to come, as a measure: every call that returns bytes or \<open>EINTR\<close> lowers it.\<close>

fun event_size :: "net_event \<Rightarrow> nat" where
  "event_size (Deliver bs) = Suc (length bs)"
| "event_size _ = 1"

definition rx_size :: "rx_state \<Rightarrow> nat" where
  "rx_size s = length (rx_buf s) + sum_list (map event_size (rx_events s))"

lemma recv_wait_size:
  assumes "recv_wait len evs ex = (r, s')" "0 < len"
  shows "rx_size s' \<le> sum_list (map event_size evs) \<and>
    (r = Return RecvIntr \<or> (\<exists>bs. r = Return (RecvBytes bs)) \<longrightarrow>
      rx_size s' < sum_list (map event_size evs))"
  using assms
  by (induction len evs ex rule: recv_wait.induct) (auto simp: rx_size_def split: if_splits)

lemma recv_size:
  assumes "recv len s = (r, s')" "0 < len"
  shows "rx_size s' \<le> rx_size s"
    and "r = Return RecvIntr \<or> (\<exists>bs. r = Return (RecvBytes bs)) \<Longrightarrow> rx_size s' < rx_size s"
  using assms recv_wait_size [of len "rx_events s" "rx_exit s" r s']
  by (auto simp: recv_def rx_size_def split: if_splits)

lemma recv_wait_length:
  "recv_wait len evs ex = (Return (RecvBytes bs), s') \<Longrightarrow> length bs \<le> len"
  by (induction len evs ex rule: recv_wait.induct) (auto split: if_splits)

lemma recv_length: "recv len s = (Return (RecvBytes bs), s') \<Longrightarrow> length bs \<le> len"
  by (auto simp: recv_def recv_wait_length split: if_splits)

subsection \<open>Byte streams\<close>

text \<open>
  The bytes a peer sends before it closes, in order, whatever the chunks they arrive in.
  \<open>orderly\<close> events: the peer sends, then closes; the only signals are ones the process does not
  end on.
\<close>

definition terminating :: "int \<Rightarrow> bool" where
  "terminating sg \<longleftrightarrow> sg = SIGINT \<or> sg = SIGTERM"

lemma signalHandler_benign [simp]: "\<not> terminating sg \<Longrightarrow> signalHandler sg ex = ex"
  by (simp add: signalHandler_def terminating_def)

fun orderly :: "net_event list \<Rightarrow> bool" where
  "orderly [] = False"
| "orderly (Deliver bs # es) = orderly es"
| "orderly (PeerClose # es) = True"
| "orderly (Signal sg # es) = (\<not> terminating sg \<and> orderly es)"
| "orderly (AsyncSignal sg # es) = (\<not> terminating sg \<and> orderly es)"
| "orderly (NetFail # es) = False"

fun payload :: "net_event list \<Rightarrow> byte list" where
  "payload [] = []"
| "payload (Deliver bs # es) = bs @ payload es"
| "payload (PeerClose # es) = []"
| "payload (e # es) = payload es"

definition rx_stream :: "rx_state \<Rightarrow> byte list" where
  "rx_stream s = rx_buf s @ payload (rx_events s)"

definition rx_orderly :: "rx_state \<Rightarrow> bool" where
  "rx_orderly s \<longleftrightarrow> orderly (rx_events s) \<and> \<not> rx_exit s"

lemma orderly_chunks [simp]: "orderly (map Deliver cs @ PeerClose # es)"
  by (induction cs) auto

lemma payload_chunks [simp]: "payload (map Deliver cs @ PeerClose # es) = concat cs"
  by (induction cs) auto

definition recv_step_ok :: "nat \<Rightarrow> byte list \<Rightarrow> recv_result io \<times> rx_state \<Rightarrow> bool" where
  "recv_step_ok len str res =
     (case res of
        (Return (RecvBytes bs), s') \<Rightarrow>
          bs \<noteq> [] \<and> length bs \<le> len \<and> str = bs @ rx_stream s' \<and> rx_orderly s'
      | (Return RecvIntr, s') \<Rightarrow> str = rx_stream s' \<and> rx_orderly s'
      | (Return RecvEof, s') \<Rightarrow> str = [] \<and> rx_orderly s'
      | _ \<Rightarrow> False)"

lemma recv_wait_orderly:
  "orderly evs \<Longrightarrow> 0 < len \<Longrightarrow> recv_step_ok len (payload evs) (recv_wait len evs False)"
  by (induction evs rule: orderly.induct)
    (auto simp: recv_step_ok_def rx_stream_def rx_orderly_def split: io.splits recv_result.splits)

lemma recv_orderly:
  assumes "rx_orderly s" "0 < len"
  shows "recv_step_ok len (rx_stream s) (recv len s)"
proof (cases "rx_buf s = []")
  case True
  with assms recv_wait_orderly [of "rx_events s" len] show ?thesis
    by (auto simp: rx_orderly_def rx_stream_def recv_def)
next
  case False
  with assms show ?thesis
    by (auto simp: recv_step_ok_def recv_def rx_stream_def rx_orderly_def)
qed

subsection \<open>Reading an exact number of bytes\<close>

text \<open>
  Both servers read with the same loop (\<open>socket_recv\<close>): \<open>recv\<close> is called until \<open>len\<close>
  bytes are there; end of file gives 0, an error or a terminating signal gives -1. \<open>got\<close> is
  what the caller's buffer holds so far.
\<close>

locale socket_reader =
  fixes reader :: "nat \<Rightarrow> byte list \<Rightarrow> rx_state \<Rightarrow> int io \<times> byte list \<times> rx_state"
  assumes reader_rec: "reader len got s =
    (if length got < len then
       (case recv (len - length got) s of
          (Blocked, s') \<Rightarrow> (Blocked, got, s')
        | (Return RecvEof, s') \<Rightarrow> (Return 0, got, s')
        | (Return RecvIntr, s') \<Rightarrow>
            (if rx_exit s' then (Return (-1), got, s') else reader len got s')
        | (Return RecvFail, s') \<Rightarrow> (Return (-1), got, s')
        | (Return (RecvBytes bs), s') \<Rightarrow> reader len (got @ bs) s')
     else (Return (int (length got)), got, s))"
begin

lemma reader_done: "len \<le> length got \<Longrightarrow> reader len got s = (Return (int (length got)), got, s)"
  by (subst reader_rec) simp

lemma reader_size:
  assumes "reader len got s = (r, bs, s')"
  shows "rx_size s' \<le> rx_size s \<and>
    (length got < len \<and> (\<exists>n > 0. r = Return n) \<longrightarrow> rx_size s' < rx_size s)"
  using assms
proof (induction s arbitrary: got rule: measure_induct_rule [where f = rx_size])
  case (less s)
  show ?case
  proof (cases "length got < len")
    case True
    obtain r1 s1 where r1: "recv (len - length got) s = (r1, s1)" by fastforce
    note size = recv_size [OF r1] True
    show ?thesis
    proof (cases "r1 = Return RecvIntr \<and> \<not> rx_exit s1 \<or> (\<exists>bs. r1 = Return (RecvBytes bs))")
      case True
      then have lt: "rx_size s1 < rx_size s" using size by auto
      with True less.prems r1 \<open>length got < len\<close> obtain got1 where
        "reader len got1 s1 = (r, bs, s')"
        by (subst (asm) reader_rec) auto
      with less.IH [OF lt] lt show ?thesis by (meson dual_order.strict_trans2 less_imp_le)
    next
      case False
      with less.prems r1 \<open>length got < len\<close> size(1) show ?thesis
        by (subst (asm) reader_rec) (auto split: io.splits recv_result.splits if_splits)
    qed
  qed (use less.prems in \<open>simp add: reader_done\<close>)
qed

text \<open>On an orderly stream: exactly the next \<open>len\<close> bytes, or 0 when fewer are left.\<close>

lemma reader_orderly:
  assumes "rx_orderly s" "length got \<le> len"
  shows "if len - length got \<le> length (rx_stream s)
    then \<exists>s'. reader len got s = (Return (int len), got @ take (len - length got) (rx_stream s), s') \<and>
           rx_stream s' = drop (len - length got) (rx_stream s) \<and> rx_orderly s'
    else \<exists>bs s'. reader len got s = (Return 0, bs, s')"
  using assms
proof (induction s arbitrary: got rule: measure_induct_rule [where f = rx_size])
  case (less s)
  show ?case
  proof (cases "length got < len")
    case True
    define n where "n = len - length got"
    with True have n: "0 < n" by simp
    obtain r1 s1 where r1: "recv n s = (r1, s1)" by fastforce
    have ok: "recv_step_ok n (rx_stream s) (r1, s1)"
      using recv_orderly [OF less.prems(1) n] r1 by simp
    note smaller = recv_size(2) [OF r1 n]
    show ?thesis
    proof (cases r1)
      case (Return res)
      show ?thesis
      proof (cases res)
        case (RecvBytes bs)
        with Return ok have bs: "bs \<noteq> []" "length bs \<le> n" "rx_stream s = bs @ rx_stream s1"
          "rx_orderly s1" by (auto simp: recv_step_ok_def)
        have step: "reader len got s = reader len (got @ bs) s1"
          using True r1 Return RecvBytes by (subst reader_rec) (simp add: n_def)
        have "length (got @ bs) \<le> len" using bs(2) True by (simp add: n_def)
        with less.IH [OF smaller, of "got @ bs"] Return RecvBytes bs(4) step bs(2,3)
        show ?thesis by (auto simp: n_def simp flip: diff_diff_left split: if_splits)
      next
        case RecvIntr
        with Return ok have "rx_stream s = rx_stream s1" "rx_orderly s1"
          by (auto simp: recv_step_ok_def)
        moreover from this have "reader len got s = reader len got s1"
          using True r1 Return RecvIntr by (subst reader_rec) (simp add: n_def rx_orderly_def)
        ultimately show ?thesis
          using less.IH [OF smaller, of got] Return RecvIntr less.prems(2) by simp
      next
        case RecvEof
        with Return ok have "rx_stream s = []" by (auto simp: recv_step_ok_def)
        moreover have "reader len got s = (Return 0, got, s1)"
          using True r1 Return RecvEof by (subst reader_rec) (simp add: n_def)
        ultimately show ?thesis using n by (simp add: n_def)
      qed (use ok Return in \<open>simp add: recv_step_ok_def\<close>)
    qed (use ok in \<open>simp add: recv_step_ok_def\<close>)
  qed (use less.prems in \<open>simp add: reader_done\<close>)
qed

text \<open>A positive result is \<open>len\<close>, with as many bytes in the buffer.\<close>

lemma reader_length:
  assumes "reader len got s = (Return n, bs, s')" "0 < n" "length got \<le> len"
  shows "n = int len \<and> length bs = len"
  using assms
proof (induction s arbitrary: got rule: measure_induct_rule [where f = rx_size])
  case (less s)
  show ?case
  proof (cases "length got < len")
    case True
    then have pos: "0 < len - length got" by simp
    obtain r1 s1 where r1: "recv (len - length got) s = (r1, s1)" by fastforce
    from True r1 less.prems consider
      "r1 = Return RecvIntr" "reader len got s1 = (Return n, bs, s')"
      | cs where "r1 = Return (RecvBytes cs)" "reader len (got @ cs) s1 = (Return n, bs, s')"
      by (subst (asm) reader_rec) (auto split: io.splits recv_result.splits if_splits)
    then show ?thesis
    proof cases
      case 1
      with less.IH [OF recv_size(2) [OF r1 pos]] less.prems show ?thesis by simp
    next
      case 2
      have "length cs \<le> len - length got" using recv_length [OF r1 [unfolded 2(1)]] .
      with less.IH [OF recv_size(2) [OF r1 pos]] 2 less.prems show ?thesis by simp
    qed
  qed (use less.prems in \<open>simp add: reader_done\<close>)
qed

end

end
