(* ===== verification/Message_Queue.thy ===== *)
theory Message_Queue
  imports Posix_IO
begin

text \<open>
  POSIX message queues as the daemons use them: bounded, ordered by priority and then by
  arrival, with a maximal message size; a full queue blocks the sender or, with
  \<open>O_NONBLOCK\<close>, refuses the message with \<open>EAGAIN\<close>. A message carries the length given to
  \<open>mq_send\<close>. \<open>mq_fault\<close> makes every call fail with that error (a bad descriptor, say).
  The interface \<open>bounded_fifo\<close> is what the daemons rely on; it holds of the queues because every
  sender uses the same priority.
\<close>

datatype errno = EAGAIN | EMSGSIZE | EINTR | EOTHER

record 'm mqueue =
  mq_maxmsg :: nat
  mq_msgsize :: nat
  mq_msgs :: "(nat \<times> nat \<times> 'm) list"
  mq_fault :: "errno option"

fun insert_message :: "nat \<times> nat \<times> 'm \<Rightarrow> (nat \<times> nat \<times> 'm) list \<Rightarrow> (nat \<times> nat \<times> 'm) list" where
  "insert_message x [] = [x]"
| "insert_message x (y # ys) = (if fst x \<le> fst y then y # insert_message x ys else x # y # ys)"

text \<open>\<open>mq_send(q, msg, len, prio)\<close>: \<open>None\<close> is success (0), \<open>Some e\<close> is -1 with \<open>errno = e\<close>.\<close>

definition mq_send ::
  "bool \<Rightarrow> 'm mqueue \<Rightarrow> 'm \<Rightarrow> nat \<Rightarrow> nat \<Rightarrow> errno option io \<times> 'm mqueue" where
  "mq_send nonblock q msg len prio =
     (case mq_fault q of
        Some e \<Rightarrow> (Return (Some e), q)
      | None \<Rightarrow>
          if len > mq_msgsize q then (Return (Some EMSGSIZE), q)
          else if length (mq_msgs q) \<ge> mq_maxmsg q then
            (if nonblock then (Return (Some EAGAIN), q) else (Blocked, q))
          else (Return None, q\<lparr>mq_msgs := insert_message (prio, len, msg) (mq_msgs q)\<rparr>))"

text \<open>\<open>mq_receive\<close> with a buffer of \<open>len\<close> bytes; the result is the message and its length.\<close>

definition mq_receive :: "'m mqueue \<Rightarrow> nat \<Rightarrow> (errno + 'm \<times> nat) io \<times> 'm mqueue" where
  "mq_receive q len =
     (case mq_fault q of
        Some e \<Rightarrow> (Return (Inl e), q)
      | None \<Rightarrow>
          if len < mq_msgsize q then (Return (Inl EMSGSIZE), q)
          else (case mq_msgs q of
                  [] \<Rightarrow> (Blocked, q)
                | (p, n, m) # rest \<Rightarrow> (Return (Inr (m, n)), q\<lparr>mq_msgs := rest\<rparr>)))"

section \<open>The interface\<close>

datatype 'm queue_op = QSend 'm | QReceive

text \<open>A history of sends and receives: accepted messages, received messages, final queue.\<close>

fun queue_run ::
  "('m \<Rightarrow> 'q \<Rightarrow> bool \<times> 'q) \<Rightarrow> ('q \<Rightarrow> 'm option \<times> 'q) \<Rightarrow> 'm queue_op list \<Rightarrow> 'q
    \<Rightarrow> 'm list \<times> 'm list \<times> 'q" where
  "queue_run snd_op rcv_op [] q = ([], [], q)"
| "queue_run snd_op rcv_op (QSend m # ops) q =
     (let (ok, q1) = snd_op m q; (acc, rcv, q2) = queue_run snd_op rcv_op ops q1
      in (if ok then m # acc else acc, rcv, q2))"
| "queue_run snd_op rcv_op (QReceive # ops) q =
     (let (r, q1) = rcv_op q; (acc, rcv, q2) = queue_run snd_op rcv_op ops q1
      in (acc, (case r of None \<Rightarrow> rcv | Some m \<Rightarrow> m # rcv), q2))"

locale bounded_fifo =
  fixes send_op :: "'m \<Rightarrow> 'q \<Rightarrow> bool \<times> 'q"
    and receive_op :: "'q \<Rightarrow> 'm option \<times> 'q"
    and contents :: "'q \<Rightarrow> 'm list"
    and capacity :: "'q \<Rightarrow> nat"
    and good :: "'q \<Rightarrow> bool"
  assumes send_room: "good q \<Longrightarrow> length (contents q) < capacity q \<Longrightarrow>
      fst (send_op m q) \<and> contents (snd (send_op m q)) = contents q @ [m]"
    and send_full: "good q \<Longrightarrow> capacity q \<le> length (contents q) \<Longrightarrow> send_op m q = (False, q)"
    and receive_empty: "good q \<Longrightarrow> contents q = [] \<Longrightarrow> receive_op q = (None, q)"
    and receive_some: "good q \<Longrightarrow> contents q = m # ms \<Longrightarrow>
      fst (receive_op q) = Some m \<and> contents (snd (receive_op q)) = ms"
    and good_send: "good q \<Longrightarrow> good (snd (send_op m q))"
    and good_receive: "good q \<Longrightarrow> good (snd (receive_op q))"
    and capacity_send: "good q \<Longrightarrow> capacity (snd (send_op m q)) = capacity q"
    and capacity_receive: "good q \<Longrightarrow> capacity (snd (receive_op q)) = capacity q"
begin

lemma fifo_send_cases:
  assumes "good q"
  shows "if length (contents q) < capacity q
    then \<exists>q'. send_op m q = (True, q') \<and> contents q' = contents q @ [m] \<and> good q' \<and>
      capacity q' = capacity q
    else send_op m q = (False, q)"
proof (cases "length (contents q) < capacity q")
  case True
  obtain ok q1 where "send_op m q = (ok, q1)" by fastforce
  with True send_room [OF assms True, of m] good_send [OF assms, of m]
    capacity_send [OF assms, of m] show ?thesis by simp
next
  case False
  with send_full [OF assms] show ?thesis by simp
qed

text \<open>No loss, no duplication, no reordering, and never more than the capacity.\<close>

lemma queue_run_fifo:
  assumes "good q" "length (contents q) \<le> capacity q"
    and "queue_run send_op receive_op ops q = (acc, rcv, q')"
  shows "contents q @ acc = rcv @ contents q' \<and> length (contents q') \<le> capacity q \<and> good q'"
  using assms
proof (induction ops arbitrary: q acc rcv)
  case (Cons op ops)
  show ?case
  proof (cases op)
    case (QSend m)
    obtain ok q1 where s: "send_op m q = (ok, q1)" by fastforce
    obtain acc1 where run: "queue_run send_op receive_op ops q1 = (acc1, rcv, q')"
      and acc: "acc = (if ok then m # acc1 else acc1)"
      using Cons.prems(3) QSend s by (auto split: prod.splits)
    have c: "contents q1 = (if ok then contents q @ [m] else contents q)" "good q1"
      "length (contents q1) \<le> capacity q1" "capacity q1 = capacity q"
      using fifo_send_cases [OF Cons.prems(1), of m] s Cons.prems(1,2) by (auto split: if_splits)
    from Cons.IH [OF c(2,3) run] c acc show ?thesis by (auto split: if_splits)
  next
    case QReceive
    obtain r q1 where s: "receive_op q = (r, q1)" by fastforce
    obtain rcv1 where run: "queue_run send_op receive_op ops q1 = (acc, rcv1, q')"
      and rcv: "rcv = (case r of None \<Rightarrow> rcv1 | Some m \<Rightarrow> m # rcv1)"
      using Cons.prems(3) QReceive s by (auto split: prod.splits)
    have c: "contents q = (case r of None \<Rightarrow> contents q1 | Some m \<Rightarrow> m # contents q1)" "good q1"
      "capacity q1 = capacity q"
      using receive_empty [OF Cons.prems(1)] receive_some [OF Cons.prems(1)]
        good_receive [OF Cons.prems(1)] capacity_receive [OF Cons.prems(1)] s
      by (cases "contents q"; auto)+
    have "length (contents q1) \<le> capacity q1"
      using c Cons.prems(2) by (auto split: option.splits)
    from Cons.IH [OF c(2) this run] c rcv show ?thesis by (auto split: option.splits)
  qed
qed auto

end

section \<open>Queues whose senders use one priority\<close>

definition uniform_queue :: "nat \<Rightarrow> nat \<Rightarrow> 'm mqueue \<Rightarrow> bool" where
  "uniform_queue prio len q \<longleftrightarrow>
     mq_fault q = None \<and> mq_msgsize q = len \<and> (\<forall>x \<in> set (mq_msgs q). fst x = prio)"

definition queue_contents :: "'m mqueue \<Rightarrow> 'm list" where
  "queue_contents q = map (\<lambda>(p, n, m). m) (mq_msgs q)"

definition send_accepts :: "nat \<Rightarrow> ('m \<Rightarrow> nat) \<Rightarrow> 'm \<Rightarrow> 'm mqueue \<Rightarrow> bool \<times> 'm mqueue" where
  "send_accepts prio len m q =
     (case mq_send True q m (len m) prio of (r, q') \<Rightarrow> (r = Return None, q'))"

definition receive_next :: "nat \<Rightarrow> 'm mqueue \<Rightarrow> 'm option \<times> 'm mqueue" where
  "receive_next len q =
     (case mq_receive q len of
        (Return (Inr (m, n)), q') \<Rightarrow> (Some m, q')
      | (_, q') \<Rightarrow> (None, q'))"

lemma insert_message_last:
  "\<forall>y \<in> set ys. fst y = fst x \<Longrightarrow> insert_message x ys = ys @ [x]"
  by (induction ys) auto

lemma uniform_send:
  assumes "uniform_queue prio sz q" "len m \<le> sz"
  shows "send_accepts prio len m q =
    (if length (mq_msgs q) < mq_maxmsg q
     then (True, q\<lparr>mq_msgs := mq_msgs q @ [(prio, len m, m)]\<rparr>) else (False, q))"
  using assms
  by (auto simp: uniform_queue_def send_accepts_def mq_send_def insert_message_last)

lemma bounded_fifo_mqueue:
  assumes "\<And>m. len m \<le> sz"
  shows "bounded_fifo (send_accepts prio len) (receive_next sz) queue_contents mq_maxmsg
    (uniform_queue prio sz)"
  using assms
  by unfold_locales
    (auto simp: uniform_send queue_contents_def receive_next_def mq_receive_def
      uniform_queue_def split: list.splits)

end
