(* ===== verification/Server.thy ===== *)
theory Server
  imports Posix_IO
begin

text \<open>
  What the start-up and shutdown code of the daemons shares: the resources a process holds
  (queue descriptors, file descriptors, address lists, heap blocks, locks) with a ledger of the calls
  that take and give them back, the results of the socket set-up calls, and the events at a
  listening socket.
\<close>

section \<open>Resource ledger\<close>

datatype resource = ResMq string | ResFd int | ResAddrInfo | ResMem string | ResLock string

text \<open>\<open>Handover\<close> passes a resource to a thread, which gives it back itself.\<close>

datatype sys_act = Acquire resource | Release resource | Handover resource

text \<open>
  The resources held after a sequence of acts; \<open>None\<close> when something is released that is not
  held (a double close or double free).
\<close>

fun held :: "resource list \<Rightarrow> sys_act list \<Rightarrow> resource list option" where
  "held hs [] = Some hs"
| "held hs (Acquire r # acts) = held (r # hs) acts"
| "held hs (Release r # acts) = (if r \<in> set hs then held (remove1 r hs) acts else None)"
| "held hs (Handover r # acts) = (if r \<in> set hs then held (remove1 r hs) acts else None)"

lemma held_append:
  "held hs (as @ bs) = (case held hs as of None \<Rightarrow> None | Some hs' \<Rightarrow> held hs' bs)"
  by (induction hs as rule: held.induct) auto

lemma held_frame: "held xs acts = Some ys \<Longrightarrow> held (xs @ hs) acts = Some (ys @ hs)"
proof (induction xs acts rule: held.induct)
  case (2 xs r acts)
  then show ?case by (simp flip: append_Cons)
qed (auto simp: remove1_append split: if_splits)

lemma held_balanced [simp]: "held [] acts = Some [] \<Longrightarrow> held hs acts = Some hs"
  using held_frame [of "[]" acts "[]" hs] by simp

section \<open>Socket set-up\<close>

record socket_results =
  getaddrinfo_result :: int
  socket_result :: int
  setsockopt_result :: int
  bind_result :: int
  listen_result :: int

section \<open>Connections\<close>

text \<open>
  Events of one iteration of an accept loop: the allocation fails; \<open>accept\<close> is interrupted by
  a signal, fails, or returns a descriptor, for which \<open>pthread_create\<close> succeeds or not.
\<close>

datatype accept_event =
    MallocFail
  | AcceptIntr int
  | AcceptFail
  | AcceptClient int bool

text \<open>
  The result of an accept loop: whether it has ended, the connections handed to threads, the
  ledger; \<open>prepend\<close> adds what an iteration did to the rest of the loop.
\<close>

type_synonym accept_result = "unit io \<times> int list \<times> sys_act list"

definition prepend :: "int list \<Rightarrow> sys_act list \<Rightarrow> accept_result \<Rightarrow> accept_result" where
  "prepend cs acts res = (fst res, cs @ fst (snd res), acts @ snd (snd res))"

lemma prepend_simps [simp]:
  "fst (prepend cs acts res) = fst res"
  "fst (snd (prepend cs acts res)) = cs @ fst (snd res)"
  "snd (snd (prepend cs acts res)) = acts @ snd (snd res)"
  by (simp_all add: prepend_def)

abbreviation client_cell :: resource where "client_cell \<equiv> ResMem ''client_fd''"

end
