(* ===== verification/Acquiring.thy ===== *)
theory Acquiring
  imports Message_Queue Server
begin

text \<open>
  \<open>src/acquiring_d.c\<close>: the acquisition daemon. \<open>socket_recv\<close> and
  \<open>socketConnectionHandler\<close> turn the byte stream of one sensor connection into packets and
  forward each to the queue \<open>/mq-acquire-process\<close>; \<open>main\<close> sets the process up and accepts
  connections. The reference decoder \<open>split_packets\<close> works on the whole stream at once; the
  handler is shown to compute it whatever the chunks TCP delivers.
\<close>

definition PACKET_HEADER_FIELDS_SIZE :: nat where "PACKET_HEADER_FIELDS_SIZE = 6"
definition PACKET_DATA_FIELDS_SIZE :: nat where "PACKET_DATA_FIELDS_SIZE = 12"
definition PACKET_SIZE :: nat where
  "PACKET_SIZE = PACKET_HEADER_FIELDS_SIZE + PACKET_DATA_FIELDS_SIZE"
definition SYNC_BYTE :: byte where "SYNC_BYTE = 0xAA"
definition MESSAGE_QUEUE_PRIORITY :: nat where "MESSAGE_QUEUE_PRIORITY = 3"
definition CLIENT_ACCEPT_FAILURE_LIMIT_MAX :: nat where "CLIENT_ACCEPT_FAILURE_LIMIT_MAX = 16"

lemmas packet_size_defs = PACKET_HEADER_FIELDS_SIZE_def PACKET_DATA_FIELDS_SIZE_def PACKET_SIZE_def

section \<open>Reading from the socket\<close>

function acq_socket_recv ::
  "nat \<Rightarrow> byte list \<Rightarrow> rx_state \<Rightarrow> int io \<times> byte list \<times> rx_state" where
  "acq_socket_recv len got s =
     (if length got < len then
        (case recv (len - length got) s of
           (Blocked, s') \<Rightarrow> (Blocked, got, s')
         | (Return RecvEof, s') \<Rightarrow> (Return 0, got, s')
         | (Return RecvIntr, s') \<Rightarrow>
             (if rx_exit s' then (Return (-1), got, s') else acq_socket_recv len got s')
         | (Return RecvFail, s') \<Rightarrow> (Return (-1), got, s')
         | (Return (RecvBytes bs), s') \<Rightarrow> acq_socket_recv len (got @ bs) s')
      else (Return (int (length got)), got, s))"
  by pat_completeness auto
termination
  by (relation "measure (\<lambda>(len, got, s). rx_size s)") (auto dest: recv_size(2) [OF sym])

declare acq_socket_recv.simps [simp del]

interpretation acq_reader: socket_reader acq_socket_recv
  by unfold_locales (rule acq_socket_recv.simps)

section \<open>One connection\<close>

datatype conn_end = Disconnected | RecvError | BadSync | TooLong | ExitRequested

text \<open>
  The body of the loop up to the forwarding: the header, the length check and the data. The
  result is a packet or the reason the loop is left.
\<close>

definition acq_read_packet :: "rx_state \<Rightarrow> (conn_end + byte list) io \<times> rx_state" where
  "acq_read_packet s =
     (case acq_socket_recv PACKET_HEADER_FIELDS_SIZE [] s of
        (Blocked, _, s1) \<Rightarrow> (Blocked, s1)
      | (Return bytes_read, hdr, s1) \<Rightarrow>
          if bytes_read = 0 then (Return (Inl Disconnected), s1)
          else if bytes_read < 0 then (Return (Inl RecvError), s1)
          else if hdr ! 0 \<noteq> SYNC_BYTE then (Return (Inl BadSync), s1)
          else
            let msg_data_len = unat (le16 (hdr ! 4) (hdr ! 5)) in
            if msg_data_len > PACKET_DATA_FIELDS_SIZE then (Return (Inl TooLong), s1)
            else if msg_data_len > 0 then
              (case acq_socket_recv msg_data_len [] s1 of
                 (Blocked, _, s2) \<Rightarrow> (Blocked, s2)
               | (Return bytes_read', dat, s2) \<Rightarrow>
                   if bytes_read' = 0 then (Return (Inl Disconnected), s2)
                   else if bytes_read' < 0 then (Return (Inl RecvError), s2)
                   else (Return (Inr (hdr @ dat)), s2))
            else (Return (Inr hdr), s1))"

text \<open>
  \<open>mq_send\<close> on the transfer queue blocks while the queue is full; its results are scripted
  like the socket's. \<open>ac_forwarded\<close> are the packets the queue accepted, in order.
\<close>

datatype mq_send_event = MqSent | MqError errno | MqInterrupted int

record acq_conn =
  ac_rx :: rx_state
  ac_sends :: "mq_send_event list"
  ac_forwarded :: "byte list list"

fun forwardPacket :: "byte list \<Rightarrow> acq_conn \<Rightarrow> unit io \<times> acq_conn" where
  "forwardPacket packet c =
     (case ac_sends c of
        [] \<Rightarrow> (Blocked, c)
      | MqSent # es \<Rightarrow>
          (Return (), c\<lparr>ac_sends := es, ac_forwarded := ac_forwarded c @ [packet]\<rparr>)
      | MqError e # es \<Rightarrow> (Return (), c\<lparr>ac_sends := es\<rparr>)
      | MqInterrupted sg # es \<Rightarrow>
          (Return (), c\<lparr>ac_sends := es,
             ac_rx := (ac_rx c)\<lparr>rx_exit := signalHandler sg (rx_exit (ac_rx c))\<rparr>\<rparr>))"

lemma acq_read_packet_size:
  assumes "acq_read_packet s = (Return (Inr p), s')"
  shows "rx_size s' < rx_size s"
proof -
  obtain r hdr s1 where h: "acq_socket_recv PACKET_HEADER_FIELDS_SIZE [] s = (r, hdr, s1)"
    by (metis prod_cases3)
  note size1 = acq_reader.reader_size [OF h]
  from assms h obtain n where "r = Return n" "0 < n"
    by (auto simp: acq_read_packet_def split: io.splits if_splits)
  with size1 have lt: "rx_size s1 < rx_size s" by (simp add: packet_size_defs)
  obtain r2 dat s2 where d: "acq_socket_recv (unat (le16 (hdr ! 4) (hdr ! 5))) [] s1 = (r2, dat, s2)"
    by (metis prod_cases3)
  from assms h d have "s' = s1 \<or> s' = s2"
    by (auto simp: acq_read_packet_def Let_def split: io.splits if_splits)
  with lt acq_reader.reader_size [OF d] show ?thesis by auto
qed

lemma forwardPacket_size:
  "forwardPacket p c = (r, c') \<Longrightarrow> rx_size (ac_rx c') = rx_size (ac_rx c)"
  by (auto simp: rx_size_def split: list.splits mq_send_event.splits)

function acq_socketConnectionHandler :: "acq_conn \<Rightarrow> conn_end io \<times> acq_conn" where
  "acq_socketConnectionHandler c =
     (if rx_exit (ac_rx c) then (Return ExitRequested, c)
      else (case acq_read_packet (ac_rx c) of
              (Blocked, s) \<Rightarrow> (Blocked, c\<lparr>ac_rx := s\<rparr>)
            | (Return (Inl e), s) \<Rightarrow> (Return e, c\<lparr>ac_rx := s\<rparr>)
            | (Return (Inr packet), s) \<Rightarrow>
                (case forwardPacket packet (c\<lparr>ac_rx := s\<rparr>) of
                   (Blocked, c') \<Rightarrow> (Blocked, c')
                 | (Return _, c') \<Rightarrow> acq_socketConnectionHandler c')))"
  by pat_completeness auto
termination
proof (relation "measure (\<lambda>c. rx_size (ac_rx c))", goal_cases)
  case (2 c r s res packet r' c' u)
  then show ?case
    using acq_read_packet_size [of "ac_rx c" packet s]
      forwardPacket_size [of packet "c\<lparr>ac_rx := s\<rparr>" r' c'] by simp
qed simp

declare acq_socketConnectionHandler.simps [simp del] forwardPacket.simps [simp del]

section \<open>Packets\<close>

definition well_formed_packet :: "byte list \<Rightarrow> bool" where
  "well_formed_packet p \<longleftrightarrow>
     PACKET_HEADER_FIELDS_SIZE \<le> length p \<and> length p \<le> PACKET_SIZE \<and> p ! 0 = SYNC_BYTE \<and>
     length p = PACKET_HEADER_FIELDS_SIZE + unat (le16 (p ! 4) (p ! 5))"

lemma well_formed_packet_length: "well_formed_packet p \<Longrightarrow> length p \<le> PACKET_SIZE"
  by (simp add: well_formed_packet_def)

lemma acq_read_packet_wf:
  assumes "acq_read_packet s = (Return (Inr p), s')"
  shows "well_formed_packet p"
proof -
  obtain r hdr s1 where h: "acq_socket_recv PACKET_HEADER_FIELDS_SIZE [] s = (r, hdr, s1)"
    by (metis prod_cases3)
  define n where "n = unat (le16 (hdr ! 4) (hdr ! 5))"
  obtain r2 dat s2 where d: "acq_socket_recv n [] s1 = (r2, dat, s2)"
    by (metis prod_cases3)
  from assms h obtain k where "r = Return k" "0 < k"
    by (auto simp: acq_read_packet_def split: io.splits if_splits)
  with acq_reader.reader_length [of _ "[]" s k hdr s1] h have len: "length hdr = 6"
    by (auto simp: packet_size_defs)
  from assms h d have sync: "hdr ! 0 = SYNC_BYTE" and n12: "n \<le> 12"
    and p: "(n = 0 \<and> p = hdr) \<or> (\<exists>k2 > 0. r2 = Return k2 \<and> p = hdr @ dat)"
    by (auto simp: acq_read_packet_def Let_def n_def packet_size_defs
        split: io.splits if_splits)
  from p consider "n = 0" "p = hdr" | "length dat = n" "p = hdr @ dat"
    using acq_reader.reader_length [of n "[]" s1] d by fastforce
  then show ?thesis
    using sync n12 len
    by cases (auto simp: well_formed_packet_def packet_size_defs nth_append n_def)
qed

lemma acq_socketConnectionHandler_wf:
  assumes "acq_socketConnectionHandler c = (r, c')"
    and "\<forall>p \<in> set (ac_forwarded c). well_formed_packet p"
  shows "\<forall>p \<in> set (ac_forwarded c'). well_formed_packet p"
  using assms
proof (induction c rule: acq_socketConnectionHandler.induct)
  case (1 c)
  show ?case
  proof (cases "\<exists>p s c1. \<not> rx_exit (ac_rx c) \<and> acq_read_packet (ac_rx c) = (Return (Inr p), s) \<and>
      forwardPacket p (c\<lparr>ac_rx := s\<rparr>) = (Return (), c1)")
    case True
    then obtain p s c1 where st: "\<not> rx_exit (ac_rx c)"
      "acq_read_packet (ac_rx c) = (Return (Inr p), s)"
      "forwardPacket p (c\<lparr>ac_rx := s\<rparr>) = (Return (), c1)" by blast
    have "\<forall>p \<in> set (ac_forwarded c1). well_formed_packet p"
      using st(3) acq_read_packet_wf [OF st(2)] "1.prems"(2)
      by (auto simp: forwardPacket.simps split: list.splits mq_send_event.splits)
    moreover have "acq_socketConnectionHandler c1 = (r, c')"
      using "1.prems"(1) st by (simp add: acq_socketConnectionHandler.simps [of c])
    ultimately show ?thesis using "1.IH" [OF st(1) st(2) [symmetric]] st(2,3) by auto
  next
    case False
    with "1.prems" show ?thesis
      by (auto simp: acq_socketConnectionHandler.simps [of c] forwardPacket.simps
          split: if_splits prod.splits io.splits sum.splits list.splits mq_send_event.splits)
  qed
qed

section \<open>The reference decoder\<close>

text \<open>
  One packet off a complete byte stream, or the reason a connection that ends there is
  dropped.
\<close>

definition next_packet :: "byte list \<Rightarrow> conn_end + byte list \<times> byte list" where
  "next_packet bs =
     (if length bs < PACKET_HEADER_FIELDS_SIZE then Inl Disconnected
      else if bs ! 0 \<noteq> SYNC_BYTE then Inl BadSync
      else let n = unat (le16 (bs ! 4) (bs ! 5)) in
      if n > PACKET_DATA_FIELDS_SIZE then Inl TooLong
      else if length bs < PACKET_HEADER_FIELDS_SIZE + n then Inl Disconnected
      else Inr (take (PACKET_HEADER_FIELDS_SIZE + n) bs, drop (PACKET_HEADER_FIELDS_SIZE + n) bs))"

lemma next_packet_shorter: "next_packet bs = Inr (p, rest) \<Longrightarrow> length rest < length bs"
  by (auto simp: next_packet_def Let_def packet_size_defs split: if_splits)

function split_packets :: "byte list \<Rightarrow> byte list list \<times> conn_end" where
  "split_packets bs =
     (case next_packet bs of
        Inl e \<Rightarrow> ([], e)
      | Inr (p, rest) \<Rightarrow> (let (ps, e) = split_packets rest in (p # ps, e)))"
  by pat_completeness auto
termination
  by (relation "measure length") (auto dest: next_packet_shorter)

declare split_packets.simps [simp del]

lemma acq_read_packet_orderly:
  assumes "rx_orderly s"
  shows "case next_packet (rx_stream s) of
      Inl e \<Rightarrow> \<exists>s'. acq_read_packet s = (Return (Inl e), s')
    | Inr (p, rest) \<Rightarrow> \<exists>s'. acq_read_packet s = (Return (Inr p), s') \<and> rx_stream s' = rest \<and>
        rx_orderly s'"
proof (cases "6 \<le> length (rx_stream s)")
  case False
  with acq_reader.reader_orderly [OF assms, of "[]" 6] show ?thesis
    by (auto simp: next_packet_def acq_read_packet_def packet_size_defs)
next
  case True
  define st where "st = rx_stream s"
  define n where "n = unat (le16 (st ! 4) (st ! 5))"
  from True acq_reader.reader_orderly [OF assms, of "[]" 6] obtain s1 where
    h: "acq_socket_recv 6 [] s = (Return 6, take 6 st, s1)" and
    s1: "rx_stream s1 = drop 6 st" "rx_orderly s1" by (auto simp: st_def)
  note unf = next_packet_def acq_read_packet_def packet_size_defs Let_def st_def [symmetric]
    n_def [symmetric] h
  consider (sync) "st ! 0 \<noteq> SYNC_BYTE" | (long) "st ! 0 = SYNC_BYTE" "12 < n"
    | (none) "st ! 0 = SYNC_BYTE" "n = 0" | (data) "st ! 0 = SYNC_BYTE" "0 < n" "n \<le> 12"
    by linarith
  then show ?thesis
  proof cases
    case data
    with acq_reader.reader_orderly [OF s1(2), of "[]" n] True s1(1) show ?thesis
      by (auto simp: unf take_add [of 6 n st] add.commute [of n 6] split: if_splits)
  qed (use True s1 in \<open>auto simp: unf\<close>)
qed

lemma handler_orderly:
  assumes "rx_orderly (ac_rx c)" "ac_sends c = replicate n MqSent"
    and "length (fst (split_packets (rx_stream (ac_rx c)))) \<le> n"
  shows "\<exists>c'. acq_socketConnectionHandler c =
      (Return (snd (split_packets (rx_stream (ac_rx c)))), c') \<and>
    ac_forwarded c' = ac_forwarded c @ fst (split_packets (rx_stream (ac_rx c)))"
  using assms
proof (induction c arbitrary: n rule: measure_induct_rule [where f = "\<lambda>c. rx_size (ac_rx c)"])
  case (less c)
  have exit: "\<not> rx_exit (ac_rx c)" using less.prems(1) by (simp add: rx_orderly_def)
  note read = acq_read_packet_orderly [OF less.prems(1)]
  show ?case
  proof (cases "next_packet (rx_stream (ac_rx c))")
    case (Inl e)
    with read exit show ?thesis
      by (auto simp: acq_socketConnectionHandler.simps [of c] split_packets.simps)
  next
    case (Inr pr)
    then obtain p rest where pr: "next_packet (rx_stream (ac_rx c)) = Inr (p, rest)"
      by (cases pr) auto
    with read obtain s where s: "acq_read_packet (ac_rx c) = (Return (Inr p), s)"
      "rx_stream s = rest" "rx_orderly s" by auto
    have split: "split_packets (rx_stream (ac_rx c)) =
        (p # fst (split_packets rest), snd (split_packets rest))"
      by (simp add: split_packets.simps [of "rx_stream (ac_rx c)"] pr split: prod.splits)
    from less.prems(3) split obtain m where m: "n = Suc m" by (cases n) auto
    define c1 where "c1 = c\<lparr>ac_rx := s, ac_sends := replicate m MqSent,
        ac_forwarded := ac_forwarded c @ [p]\<rparr>"
    have step: "acq_socketConnectionHandler c = acq_socketConnectionHandler c1"
      using exit s(1) less.prems(2) m
      by (simp add: acq_socketConnectionHandler.simps [of c] forwardPacket.simps c1_def)
    have "rx_size (ac_rx c1) < rx_size (ac_rx c)"
      using acq_read_packet_size [OF s(1)] by (simp add: c1_def)
    from less.IH [OF this, of m] s less.prems(3) split m step show ?thesis
      by (auto simp: c1_def)
  qed
qed

section \<open>The process\<close>

text \<open>\<open>ipc_init\<close>: the queue, when \<open>mq_open\<close> creates it, and the ledger of the calls.\<close>

definition MESSAGE_QUEUE_NAME :: string where "MESSAGE_QUEUE_NAME = ''/mq-acquire-process''"

definition acq_queue_attr :: "byte list mqueue" where
  "acq_queue_attr =
     \<lparr>mq_maxmsg = 10, mq_msgsize = PACKET_SIZE, mq_msgs = [], mq_fault = None\<rparr>"

definition acq_ipc_init :: "bool \<Rightarrow> int \<times> sys_act list" where
  "acq_ipc_init mq_open_ok =
     (if \<not> mq_open_ok then (-1, []) else (0, [Acquire (ResMq MESSAGE_QUEUE_NAME)]))"

text \<open>\<open>socket_init\<close>: return value, \<open>*server_fd\<close>, ledger.\<close>

definition acq_socket_init :: "socket_results \<Rightarrow> int \<times> int \<times> sys_act list" where
  "acq_socket_init env =
     (if getaddrinfo_result env \<noteq> 0 then (-1, -1, [])
      else let fd = socket_result env in
      if fd = -1 then (-1, fd, [Acquire ResAddrInfo, Release ResAddrInfo])
      else if setsockopt_result env = -1 then
        (-1, fd, [Acquire ResAddrInfo, Acquire (ResFd fd), Release (ResFd fd), Release ResAddrInfo])
      else if bind_result env = -1 then
        (-1, fd, [Acquire ResAddrInfo, Acquire (ResFd fd), Release (ResFd fd), Release ResAddrInfo])
      else (0, fd, [Acquire ResAddrInfo, Acquire (ResFd fd), Release ResAddrInfo]))"

text \<open>The accept loop of \<open>main\<close>, from \<open>exitRQ\<close> and \<open>client_accept_failure_count\<close>.\<close>

fun acq_accept_loop :: "bool \<Rightarrow> nat \<Rightarrow> accept_event list \<Rightarrow> accept_result" where
  "acq_accept_loop True failures evs = (Return (), [], [])"
| "acq_accept_loop False failures [] = (Blocked, [], [])"
| "acq_accept_loop False failures (MallocFail # es) = (Return (), [], [])"
| "acq_accept_loop False failures (AcceptIntr sg # es) =
     prepend [] [Acquire client_cell, Release client_cell]
       (if signalHandler sg False then (Return (), [], [])
        else acq_accept_loop (signalHandler sg False) failures es)"
| "acq_accept_loop False failures (AcceptFail # es) =
     prepend [] [Acquire client_cell, Release client_cell]
       (if Suc failures \<ge> CLIENT_ACCEPT_FAILURE_LIMIT_MAX then (Return (), [], [])
        else acq_accept_loop False (Suc failures) es)"
| "acq_accept_loop False failures (AcceptClient fd created # es) =
     (if \<not> created then
        prepend [] [Acquire client_cell, Acquire (ResFd fd), Release (ResFd fd),
          Release client_cell] (acq_accept_loop False 0 es)
      else
        prepend [fd] [Acquire client_cell, Acquire (ResFd fd), Handover (ResFd fd),
          Handover client_cell] (acq_accept_loop False 0 es))"

record acq_env =
  ae_init :: init_results
  ae_mq_open_ok :: bool
  ae_socket :: socket_results
  ae_accepts :: "accept_event list"

definition acq_main :: "acq_env \<Rightarrow> process \<Rightarrow> init_outcome io \<times> int list \<times> sys_act list" where
  "acq_main env p =
     (case daemon_init (ae_init env) p of
        (Exit v, _) \<Rightarrow> (Return (Exit v), [], [])
      | (Ret d, p1) \<Rightarrow>
          if d = -1 then (Return (Ret (-1)), [], [])
          else if fst (signals_init (ae_init env) p1) = -1 then (Return (Ret (-1)), [], [])
          else let (i, acts1) = acq_ipc_init (ae_mq_open_ok env) in
          if i = -1 then (Return (Ret (-1)), [], acts1)
          else let (k, server_fd, acts2) = acq_socket_init (ae_socket env) in
          if k = -1 then
            (Return (Ret (-1)), [], acts1 @ acts2 @ [Release (ResMq MESSAGE_QUEUE_NAME)])
          else if listen_result (ae_socket env) = -1 then
            (Return (Ret (-1)), [],
             acts1 @ acts2 @ [Release (ResMq MESSAGE_QUEUE_NAME), Release (ResFd server_fd)])
          else let (r, cs, acts3) = acq_accept_loop False 0 (ae_accepts env) in
          (case r of
             Blocked \<Rightarrow> (Blocked, cs, acts1 @ acts2 @ acts3)
           | Return _ \<Rightarrow>
               (Return (Ret 0), cs, acts1 @ acts2 @ acts3 @
                  [Release (ResMq MESSAGE_QUEUE_NAME), Release (ResFd server_fd)])))"

lemma acq_accept_loop_balanced:
  "held [] (snd (snd (acq_accept_loop ex n evs))) = Some []"
  by (induction ex n evs rule: acq_accept_loop.induct) auto

text \<open>
  The loop gives up on its own only after the limit of failures with no connection in
  between.
\<close>

lemma acq_accept_loop_gives_up:
  assumes "n < CLIENT_ACCEPT_FAILURE_LIMIT_MAX"
    and "\<forall>e \<in> set evs. e = AcceptFail \<or> (\<exists>sg. e = AcceptIntr sg \<and> \<not> terminating sg)"
  shows "fst (acq_accept_loop False n evs) =
    (if n + count_list evs AcceptFail \<ge> CLIENT_ACCEPT_FAILURE_LIMIT_MAX then Return () else Blocked)"
  using assms by (induction evs arbitrary: n) auto

section \<open>Properties\<close>

text \<open>
  A connection whose peer sends the bytes of \<open>cs\<close> in those chunks and closes, with a queue that
  accepts \<open>n\<close> packets.
\<close>

definition fresh_conn :: "byte list list \<Rightarrow> nat \<Rightarrow> acq_conn" where
  "fresh_conn cs n =
     \<lparr>ac_rx = \<lparr>rx_buf = [], rx_events = map Deliver cs @ [PeerClose], rx_exit = False\<rparr>,
      ac_sends = replicate n MqSent, ac_forwarded = []\<rparr>"

text \<open>
  C6: The connection handler is independent of TCP chunking: for any segmentation of the bytes a
  client sends before it closes, with a queue that takes every packet, the handler ends and has
  forwarded exactly the packets the reference decoder finds in the whole stream, in order, and it
  closes for the reason the decoder gives.
\<close>

theorem handler_decodes_any_chunking:
  assumes "length (fst (split_packets (concat cs))) \<le> n"
  shows "\<exists>c'. acq_socketConnectionHandler (fresh_conn cs n) =
      (Return (snd (split_packets (concat cs))), c') \<and>
    ac_forwarded c' = fst (split_packets (concat cs))"
  using handler_orderly [of "fresh_conn cs n" n] assms
  by (simp add: fresh_conn_def rx_orderly_def rx_stream_def)

theorem handler_decodes_any_chunking_witness:
  "\<exists>c'. acq_socketConnectionHandler
      (fresh_conn [[0xAA, 0x4B, 1], [0, 1, 0, 7, 0xAA], [0x8B, 2, 0, 0, 0, 0x55]] 2) =
      (Return Disconnected, c') \<and>
    ac_forwarded c' = [[0xAA, 0x4B, 1, 0, 1, 0, 7], [0xAA, 0x8B, 2, 0, 0, 0]]"
proof -
  have split: "split_packets (concat [[0xAA, 0x4B, 1], [0, 1, 0, 7, 0xAA], [0x8B, 2, 0, 0, 0, 0x55]]) =
      ([[0xAA, 0x4B, 1, 0, 1, 0, 7], [0xAA, 0x8B, 2, 0, 0, 0]], Disconnected)"
    by (simp add: split_packets.simps next_packet_def packet_size_defs SYNC_BYTE_def le16_def)
  show ?thesis
    using handler_decodes_any_chunking
      [of "[[0xAA, 0x4B, 1], [0, 1, 0, 7, 0xAA], [0x8B, 2, 0, 0, 0, 0x55]]" 2]
    unfolding split by simp
qed

text \<open>
  C13: Whatever happens on the connection and at the queue (errors, signals, partial reads), every
  packet the handler hands to the processing queue starts with the sync byte, has the length its
  header announces, and fits both the 18-byte buffer and the queue's message size.
\<close>

theorem handler_forwards_well_formed:
  "let c' = snd (acq_socketConnectionHandler (c\<lparr>ac_forwarded := []\<rparr>)) in
   list_all (\<lambda>p. well_formed_packet p \<and> length p \<le> mq_msgsize acq_queue_attr) (ac_forwarded c')"
proof -
  obtain r c' where "acq_socketConnectionHandler (c\<lparr>ac_forwarded := []\<rparr>) = (r, c')"
    by fastforce
  with acq_socketConnectionHandler_wf [OF this] show ?thesis
    by (simp add: acq_queue_attr_def list_all_iff well_formed_packet_length)
qed

text \<open>
  C33: Resource safety of the acquisition daemon: on every path on which \<open>main\<close> returns, every
  queue descriptor, socket, address list and heap block it took has been given back exactly once
  (or handed to a connection thread): no leak and no double close.
\<close>

theorem acq_main_releases_everything:
  assumes "acq_main env p = (Return v, cs, acts)"
  shows "held [] acts = Some []"
  using assms acq_accept_loop_balanced [of False 0 "ae_accepts env"]
  by (auto simp: acq_main_def acq_ipc_init_def acq_socket_init_def Let_def held_append
      split: prod.splits init_outcome.splits io.splits if_splits)

definition example_acq_env :: acq_env where
  "example_acq_env =
     \<lparr>ae_init = example_init, ae_mq_open_ok = True,
      ae_socket = \<lparr>getaddrinfo_result = 0, socket_result = 5, setsockopt_result = 0,
        bind_result = 0, listen_result = 0\<rparr>,
      ae_accepts = [AcceptClient 6 True, AcceptFail, AcceptClient 7 False, AcceptIntr SIGTERM]\<rparr>"

theorem acq_main_releases_everything_witness:
  "acq_main example_acq_env example_process =
     (Return (Ret 0), [6], snd (snd (acq_main example_acq_env example_process))) \<and>
   held [] (snd (snd (acq_main example_acq_env example_process))) = Some []"
proof -
  have run: "acq_main example_acq_env example_process =
     (Return (Ret 0), [6], snd (snd (acq_main example_acq_env example_process)))"
    by (simp add: acq_main_def example_acq_env_def example_init_def daemon_init_def
        signals_init_def acq_ipc_init_def acq_socket_init_def prepend_def
        CLIENT_ACCEPT_FAILURE_LIMIT_MAX_def)
  from run acq_main_releases_everything [OF run] show ?thesis by simp
qed



end
