(* ===== verification/C_Text.thy ===== *)
theory C_Text
  imports Prelude
begin

text \<open>
  The C library's text input as the host programs use it: \<open>fgets\<close>, \<open>strtok\<close> with the
  separators space, tab, carriage return and newline, and \<open>strtoul\<close>. A C string is its
  characters before the NUL.
\<close>

definition NEWLINE :: char where "NEWLINE = CHR 0x0A"

text \<open>
  The strings successive calls \<open>fgets(line, n + 1, file)\<close> return: up to and including a newline,
  at most \<open>n\<close> characters each.
\<close>

function fgets_lines :: "nat \<Rightarrow> string \<Rightarrow> string list" where
  "fgets_lines n s =
     (if s = [] \<or> n = 0 then []
      else let k = min n (Suc (length (takeWhile (\<lambda>c. c \<noteq> NEWLINE) s)))
           in take k s # fgets_lines n (drop k s))"
  by pat_completeness auto
termination
  by (relation "measure (\<lambda>(n, s). length s)") auto

declare fgets_lines.simps [simp del]

definition is_delim :: "char \<Rightarrow> bool" where
  "is_delim c \<longleftrightarrow> c \<in> {CHR '' '', CHR 0x09, CHR 0x0D, NEWLINE}"

text \<open>The tokens successive calls of \<open>strtok\<close> return on one line.\<close>

fun strtok_from :: "string \<Rightarrow> string \<Rightarrow> string list" where
  "strtok_from cur [] = (if cur = [] then [] else [cur])"
| "strtok_from cur (c # cs) =
     (if c = CHR 0x00 then (if cur = [] then [] else [cur])
      else if is_delim c then (if cur = [] then strtok_from [] cs else cur # strtok_from [] cs)
      else strtok_from (cur @ [c]) cs)"

definition strtok_all :: "string \<Rightarrow> string list" where
  "strtok_all s = strtok_from [] s"

definition is_space :: "char \<Rightarrow> bool" where
  "is_space c \<longleftrightarrow> c = CHR '' '' \<or> (of_char c :: nat) \<in> {9..13}"

definition has_digit :: "nat \<Rightarrow> string \<Rightarrow> bool" where
  "has_digit b s = (case s of [] \<Rightarrow> False
     | c # _ \<Rightarrow> (case digit_val c of None \<Rightarrow> False | Some d \<Rightarrow> d < b))"

definition strip_sign :: "string \<Rightarrow> bool \<times> string" where
  "strip_sign s = (case s of
      c # cs \<Rightarrow> (if c = CHR ''-'' then (True, cs) else if c = CHR ''+'' then (False, cs) else (False, s))
    | [] \<Rightarrow> (False, s))"

definition strip_0x :: "nat \<Rightarrow> string \<Rightarrow> string" where
  "strip_0x b s = (case s of
      c # x # cs \<Rightarrow>
        (if b = 16 \<and> c = CHR ''0'' \<and> (x = CHR ''x'' \<or> x = CHR ''X'') \<and> has_digit 16 cs then cs else s)
    | _ \<Rightarrow> s)"

definition ULONG_MAX :: nat where "ULONG_MAX = 2 ^ 64 - 1"

text \<open>
  \<open>strtoul(s, &end, b)\<close>: the value, the text at \<open>end\<close>, and whether \<open>errno\<close> is set to
  \<open>ERANGE\<close>. With no digits the value is 0 and \<open>end\<close> is \<open>s\<close>; a minus sign negates modulo
  \<open>2\<^sup>6\<^sup>4\<close>.
\<close>

definition strtoul :: "string \<Rightarrow> nat \<Rightarrow> nat \<times> string \<times> bool" where
  "strtoul s b =
     (let (neg, s1) = strip_sign (dropWhile is_space s); s2 = strip_0x b s1
      in if \<not> has_digit b s2 then (0, s, False)
         else let (v, rest) = read_digits b 0 s2
              in if v > ULONG_MAX then (ULONG_MAX, rest, True)
                 else (if neg then (2 ^ 64 - v) mod 2 ^ 64 else v, rest, False))"

lemmas text_eval = strtok_all_def is_delim_def NEWLINE_def strtoul_def strip_sign_def strip_0x_def
  has_digit_def digit_val_def is_space_def ULONG_MAX_def

section \<open>Printed numbers read back\<close>

lemma of_digit_char:
  "d < 16 \<Longrightarrow> (of_char (digit_char d) :: nat) = (if d < 10 then 48 + d else 87 + d)"
  by (simp add: digit_char_def)

lemma digit_char_neq:
  assumes "d < 16" "(of_char c :: nat) < 48 \<or> (58 \<le> (of_char c :: nat) \<and> (of_char c :: nat) < 97) \<or>
    102 < (of_char c :: nat)"
  shows "digit_char d \<noteq> c"
  using assms of_digit_char [OF assms(1)] by (auto split: if_splits)

lemma digit_char_not_special [simp]:
  assumes "d < 16"
  shows "digit_char d \<noteq> CHR 0x00" "digit_char d \<noteq> CHR ''-''" "digit_char d \<noteq> CHR ''+''"
    "digit_char d \<noteq> CHR ''x''" "digit_char d \<noteq> CHR ''X''" "digit_char d \<noteq> CHR '' ''"
    "digit_char d \<noteq> NEWLINE" "\<not> is_delim (digit_char d)" "\<not> is_space (digit_char d)"
  using assms of_digit_char [OF assms]
  by (auto simp: digit_char_neq is_delim_def is_space_def NEWLINE_def split: if_splits)

lemma show_base_digits:
  "2 \<le> b \<Longrightarrow> b \<le> 16 \<Longrightarrow> c \<in> set (show_base b n) \<Longrightarrow> \<exists>d < b. c = digit_char d"
proof (induction b n rule: show_base.induct)
  case (1 b n)
  show ?case
  proof (cases "n < b")
    case False
    with "1" have "c \<in> set (show_base b (n div b)) \<or> c = digit_char (n mod b)"
      by (auto simp: show_base.simps [of b n])
    with "1" False show ?thesis by (auto intro: exI [of _ "n mod b"])
  qed (use "1.prems" in \<open>auto simp: show_base.simps [of b n]\<close>)
qed

lemma show_base_hd_tl:
  assumes "2 \<le> b" "b \<le> 16"
  obtains d cs where "show_base b n = digit_char d # cs" "d < b"
proof (cases "show_base b n")
  case (Cons c cs)
  then show thesis using that show_base_digits [OF assms, of c n] by auto
qed simp

lemma delim_not_digit: "is_delim c \<Longrightarrow> digit_val c = None"
  by (auto simp: is_delim_def digit_val_def NEWLINE_def)

lemma strtoul_show_base:
  assumes "b = 10 \<or> b = 16" "n \<le> ULONG_MAX"
    and "rest = [] \<or> is_delim (hd rest)"
  shows "strtoul (show_base b n @ rest) b = (n, rest, False)"
proof -
  have b: "2 \<le> b" "b \<le> 16" using assms(1) by auto
  obtain d cs where dcs: "show_base b n = digit_char d # cs" and d: "d < b"
    using show_base_hd_tl [OF b] by blast
  have d16: "d < 16" using d b by simp
  have "strip_sign (dropWhile is_space (show_base b n @ rest)) = (False, show_base b n @ rest)"
    using d16 by (simp add: dcs strip_sign_def)
  moreover have "strip_0x b (show_base b n @ rest) = show_base b n @ rest"
  proof (cases cs)
    case Nil
    with assms(3) show ?thesis
      by (auto simp: dcs strip_0x_def is_delim_def NEWLINE_def split: list.splits)
  next
    case (Cons c cs')
    with dcs show_base_digits [OF b, of c n] b show ?thesis
      by (auto simp: strip_0x_def)
  qed
  moreover have "has_digit b (show_base b n @ rest)"
    using d d16 by (simp add: dcs has_digit_def)
  moreover have "read_digits b 0 (show_base b n @ rest) = (n, rest)"
    using assms(3) read_show_base [OF b, of 0 n rest]
    by (cases rest) (auto simp: delim_not_digit)
  ultimately show ?thesis using assms(2) by (simp add: strtoul_def)
qed

lemma strtok_from_token:
  "\<forall>c \<in> set t. \<not> is_delim c \<and> c \<noteq> CHR 0x00 \<Longrightarrow> strtok_from cur (t @ rest) = strtok_from (cur @ t) rest"
  by (induction t arbitrary: cur) auto

lemma strtok_all_cons:
  assumes "t \<noteq> []" "\<forall>c \<in> set t. \<not> is_delim c \<and> c \<noteq> CHR 0x00" "is_delim d" "d \<noteq> CHR 0x00"
  shows "strtok_all (t @ d # rest) = t # strtok_all rest"
  using assms by (simp add: strtok_all_def strtok_from_token [of t "[]"])

lemma strtok_all_delim [simp]: "is_delim d \<Longrightarrow> d \<noteq> CHR 0x00 \<Longrightarrow> strtok_all (d # rest) = strtok_all rest"
  by (simp add: strtok_all_def)

lemma strtok_all_Nil [simp]: "strtok_all [] = []"
  by (simp add: strtok_all_def)

lemma delim_simps [simp]: "is_delim (CHR '' '')" "is_delim NEWLINE" "NEWLINE \<noteq> CHR 0x00"
  by (simp_all add: is_delim_def NEWLINE_def)

definition token :: "string \<Rightarrow> bool" where
  "token t \<longleftrightarrow> t \<noteq> [] \<and> (\<forall>c \<in> set t. \<not> is_delim c \<and> c \<noteq> CHR 0x00)"

lemma token_show_base: "2 \<le> b \<Longrightarrow> b \<le> 16 \<Longrightarrow> token (show_base b n)"
  unfolding token_def by (auto dest!: show_base_digits simp: digit_char_not_special(1) [symmetric])

text \<open>Words separated by single blanks and ended by a newline are the tokens of the line.\<close>

definition blank_separated :: "string list \<Rightarrow> string" where
  "blank_separated ts = concat (map (\<lambda>t. CHR '' '' # t) ts) @ [NEWLINE]"

lemma strtok_all_blank_separated:
  "(\<And>t. t \<in> set ts \<Longrightarrow> token t) \<Longrightarrow> strtok_all (blank_separated ts) = ts"
proof (induction ts)
  case (Cons t ts)
  obtain d r where d: "blank_separated ts = d # r" "is_delim d" "d \<noteq> CHR 0x00"
    by (cases ts) (auto simp: blank_separated_def)
  then have "strtok_all r = ts" using Cons by simp
  then show ?case
    using d Cons.prems [of t] strtok_all_cons [of t d r]
    by (simp add: blank_separated_def token_def)
qed (simp add: blank_separated_def)

end
