(* ===== verification/C_Scan.thy ===== *)
theory C_Scan
  imports C_Text "HOL-Library.Signed_Division"
begin

text \<open>
  More of the C library's text and integer functions, as the device interface uses them: strings
  that end at a NUL, signed decimal conversion (\<open>strtoll\<close> and the \<open>%ld\<close> of \<open>sscanf\<close>, both on a
  64-bit \<open>long\<close>), \<open>atoi\<close>, and \<open>int64_t\<close> arithmetic. Signed overflow, undefined in C, is given the
  two's complement result of the machine instruction; the theorems on arithmetic exclude it by
  their hypotheses.
\<close>

section \<open>Strings and bytes\<close>

text \<open>What the string functions see of an array of characters.\<close>

definition c_string :: "string \<Rightarrow> string" where
  "c_string s = takeWhile (\<lambda>c. c \<noteq> CHR 0x00) s"

lemma c_string_id [simp]: "CHR 0x00 \<notin> set s \<Longrightarrow> c_string s = s"
  unfolding c_string_def by (induction s) auto

text \<open>A byte of a socket read into a \<open>char\<close> array and back.\<close>

definition char_of_byte :: "byte \<Rightarrow> char" where
  "char_of_byte b = char_of (unat b)"

definition byte_of_char :: "char \<Rightarrow> byte" where
  "byte_of_char c = of_nat (of_char c)"

lemma char_of_byte_of_char [simp]: "char_of_byte (byte_of_char c) = c"
  by (simp add: char_of_byte_def byte_of_char_def unat_of_nat)

section \<open>Signed 64-bit integers\<close>

definition s64 :: "int \<Rightarrow> int" where
  "s64 i = sint (word_of_int i :: u64)"

lemma s64_id: "- (2 ^ 63) \<le> i \<Longrightarrow> i < 2 ^ 63 \<Longrightarrow> s64 i = i"
  by (simp add: s64_def signed_of_int signed_take_bit_int_eq_self)

definition LLONG_MAX :: int where "LLONG_MAX = 2 ^ 63 - 1"
definition LLONG_MIN :: int where "LLONG_MIN = - (2 ^ 63)"

section \<open>Signed decimal conversion\<close>

text \<open>
  \<open>strtoll(s, &end, 10)\<close>: the value, the text at \<open>end\<close>, and whether \<open>errno\<close> is set to
  \<open>ERANGE\<close>. With no digits the value is 0 and \<open>end\<close> is \<open>s\<close>.
\<close>

definition strtoll :: "string \<Rightarrow> int \<times> string \<times> bool" where
  "strtoll s =
     (let (neg, s1) = strip_sign (dropWhile is_space s)
      in if \<not> has_digit 10 s1 then (0, s, False)
         else let (n, rest) = read_digits 10 0 s1; v = (if neg then - int n else int n)
              in if v > LLONG_MAX then (LLONG_MAX, rest, True)
                 else if v < LLONG_MIN then (LLONG_MIN, rest, True)
                 else (v, rest, False))"

text \<open>The conversion \<open>%ld\<close> of \<open>sscanf\<close>: \<open>None\<close> is a matching failure or the end of input.\<close>

definition scan_ld :: "string \<Rightarrow> (int \<times> string) option" where
  "scan_ld s =
     (let (v, rest, range) = strtoll s
      in if \<not> has_digit 10 (snd (strip_sign (dropWhile is_space s))) then None else Some (v, rest))"

text \<open>An ordinary character of the format matches itself, white space any white space.\<close>

fun scan_literal :: "string \<Rightarrow> string \<Rightarrow> string option" where
  "scan_literal [] s = Some s"
| "scan_literal (f # fs) s =
     (if is_space f then scan_literal fs (dropWhile is_space s)
      else case s of [] \<Rightarrow> None | c # cs \<Rightarrow> if c = f then scan_literal fs cs else None)"

text \<open>\<open>atoi\<close>: the value is converted to \<open>int\<close>.\<close>

definition atoi :: "string \<Rightarrow> int" where
  "atoi s = sint (word_of_int (fst (strtoll s)) :: u32)"

section \<open>Printed numbers read back\<close>

lemma show_int_cases:
  obtains d cs where "show_int i = digit_char d # cs" "d < 10" "0 \<le> i"
    "show_base 10 (nat i) = digit_char d # cs"
  | d cs where "show_int i = CHR ''-'' # digit_char d # cs" "d < 10" "i < 0"
    "show_base 10 (nat (- i)) = digit_char d # cs"
proof (cases "i < 0")
  case True
  obtain d cs where "show_base 10 (nat (- i)) = digit_char d # cs" "d < 10"
    using show_base_hd_tl [of 10] by auto
  then show thesis using that(2) True by (simp add: show_int_def)
next
  case False
  obtain d cs where "show_base 10 (nat i) = digit_char d # cs" "d < 10"
    using show_base_hd_tl [of 10] by auto
  then show thesis using that(1) False by (simp add: show_int_def)
qed

lemma read_digits_show:
  "rest = [] \<or> is_space (hd rest) \<Longrightarrow> read_digits 10 0 (show_base 10 n @ rest) = (n, rest)"
  using read_show_base [of 10 0 n rest]
  by (cases rest) (auto simp: is_space_def digit_val_def)

lemma has_digit_show [simp]: "has_digit 10 (show_base 10 n @ rest)"
proof -
  obtain d cs where "show_base 10 n = digit_char d # cs" "d < 10"
    using show_base_hd_tl [of 10] by auto
  then show ?thesis by (simp add: has_digit_def)
qed

lemma strip_sign_show_int:
  "strip_sign (dropWhile is_space (show_int i @ rest)) = (i < 0, show_base 10 (nat \<bar>i\<bar>) @ rest)"
proof (cases rule: show_int_cases [of i])
  case (1 d cs)
  then show ?thesis by (simp add: strip_sign_def)
next
  case (2 d cs)
  then show ?thesis by (simp add: strip_sign_def is_space_def)
qed

lemma strtoll_show_int:
  assumes "LLONG_MIN \<le> i" "i \<le> LLONG_MAX" "rest = [] \<or> is_space (hd rest)"
  shows "strtoll (show_int i @ rest) = (i, rest, False)"
  using assms by (simp add: strtoll_def strip_sign_show_int read_digits_show)

lemma scan_ld_show_int:
  assumes "LLONG_MIN \<le> i" "i \<le> LLONG_MAX" "rest = [] \<or> is_space (hd rest)"
  shows "scan_ld (show_int i @ rest) = Some (i, rest)"
  using strtoll_show_int [OF assms] by (simp add: scan_ld_def strip_sign_show_int)

lemma scan_ld_skips: "is_space c \<Longrightarrow> scan_ld (c # s) = scan_ld s"
  by (auto simp: scan_ld_def strtoll_def Let_def split: prod.splits)

section \<open>Lines\<close>

text \<open>Text that stays on its line and in its string.\<close>

definition one_line :: "string \<Rightarrow> bool" where
  "one_line s \<longleftrightarrow> NEWLINE \<notin> set s \<and> CHR 0x00 \<notin> set s"

lemma one_line_simps [simp]:
  "one_line []" "one_line (c # s) \<longleftrightarrow> c \<noteq> NEWLINE \<and> c \<noteq> CHR 0x00 \<and> one_line s"
  "one_line (s @ t) \<longleftrightarrow> one_line s \<and> one_line t"
  by (auto simp: one_line_def)

lemma one_line_replicate [simp]: "c \<noteq> NEWLINE \<Longrightarrow> c \<noteq> CHR 0x00 \<Longrightarrow> one_line (replicate n c)"
  by (auto simp: one_line_def)

lemma one_line_show_base [simp]:
  assumes "2 \<le> b" "b \<le> 16"
  shows "one_line (show_base b n)"
  unfolding one_line_def
proof
  show "NEWLINE \<notin> set (show_base b n)"
  proof
    assume "NEWLINE \<in> set (show_base b n)"
    from show_base_digits [OF assms this] obtain d where "d < b" "digit_char d = NEWLINE" by metis
    with assms show False by simp
  qed
  show "CHR 0x00 \<notin> set (show_base b n)"
  proof
    assume "CHR 0x00 \<in> set (show_base b n)"
    from show_base_digits [OF assms this] obtain d where "d < b" "digit_char d = CHR 0x00" by metis
    with assms show False by simp
  qed
qed

lemma one_line_show_int [simp]: "one_line (show_int i)"
  by (simp add: show_int_def NEWLINE_def)

lemma c_string_one_line [simp]: "one_line s \<Longrightarrow> c_string s = s"
  by (simp add: one_line_def)

end
