(* ===== verification/Client_Sensors.thy ===== *)
theory Client_Sensors
  imports Sense Acquiring C_Scan "HOL-Library.Sublist"
begin

text \<open>
  \<open>sensor-sims/client-sensors.c\<close>: the sensor simulator. A line of the data file becomes a
  packet (\<open>client_line\<close>, the body of the reading loop), packets are sent with \<open>send_all\<close>, and
  the latency client embeds its clock in a packet. The round trips with the acquisition daemon's
  decoder are proved here.
\<close>

section \<open>Sending\<close>

fun client_send_all_loop ::
  "'b list \<Rightarrow> nat \<Rightarrow> nat \<Rightarrow> send_event list \<Rightarrow> int io \<times> 'b list \<times> send_event list" where
  "client_send_all_loop buffer len total_sent evs =
     (if total_sent < len then
        (case evs of
           [] \<Rightarrow> (Blocked, [], [])
         | SendIntr # es \<Rightarrow> client_send_all_loop buffer len total_sent es
         | SendFail # es \<Rightarrow> (Return (-1), [], es)
         | Sent n # es \<Rightarrow>
             (if n = 0 then (Return (-1), [], es)
              else let k = min n (len - total_sent);
                       (r, out, rest) = client_send_all_loop buffer len (total_sent + k) es
                   in (r, take k (drop total_sent buffer) @ out, rest)))
      else (Return 0, [], evs))"

declare client_send_all_loop.simps [simp del]

definition client_send_all ::
  "'b list \<Rightarrow> send_event list \<Rightarrow> int io \<times> 'b list \<times> send_event list" where
  "client_send_all buffer evs = client_send_all_loop buffer (length buffer) 0 evs"

interpretation client_sink: counting_sink client_send_all_loop
  by unfold_locales (rule client_send_all_loop.simps)

section \<open>Packets\<close>

definition client_SYNC_FIELD :: byte where "client_SYNC_FIELD = 0xAA"
definition MAX_DATA_SIZE :: nat where "MAX_DATA_SIZE = 12"
definition LATENCY_SENSOR_ID :: u16 where "LATENCY_SENSOR_ID = 0xFDE8"
definition LATENCY_SENSOR_TYPE :: byte where "LATENCY_SENSOR_TYPE = 0x2B"

text \<open>The bytes \<open>packet[0 .. PACKET_HEADER_SIZE + data_length)\<close>; their number is the result.\<close>

definition build_packet :: "byte \<Rightarrow> u16 \<Rightarrow> byte list \<Rightarrow> u16 \<Rightarrow> byte list" where
  "build_packet t i dat data_length =
     [client_SYNC_FIELD, t, ucast (i AND 0xFF), ucast (drop_bit 8 i AND 0xFF),
      ucast (data_length AND 0xFF), ucast (drop_bit 8 data_length AND 0xFF)]
     @ (if data_length > 0 then take (unat data_length) dat else [])"

section \<open>Lines of the data file\<close>

datatype line_result = SkipLine | SendPacket byte u16 "byte list"

text \<open>
  The data loop: the bytes read and whether \<open>token\<close> is non-null when the loop is left. An
  invalid byte resets \<open>data_length\<close> to 0.
\<close>

fun client_data :: "string list \<Rightarrow> byte list \<Rightarrow> byte list \<times> bool" where
  "client_data [] dat = (dat, \<not> length dat < MAX_DATA_SIZE)"
| "client_data (tok # toks) dat =
     (if length dat < MAX_DATA_SIZE then
        (let (v, endptr, range) = strtoul tok 16 in
         if range \<or> endptr \<noteq> [] \<or> v > 255 then ([], True)
         else client_data toks (dat @ [of_nat v]))
      else (dat, True))"

definition client_line :: "string \<Rightarrow> line_result" where
  "client_line line =
     (case strtok_all line of
        [] \<Rightarrow> SkipLine
      | tok # toks \<Rightarrow>
          if hd tok = CHR ''#'' then SkipLine
          else let (type_value, endptr, range) = strtoul tok 16 in
          if range \<or> endptr \<noteq> [] \<or> type_value > 255 then SkipLine
          else (case toks of
                  [] \<Rightarrow> SkipLine
                | tok2 # toks2 \<Rightarrow>
                    let (id_value, endptr2, range2) = strtoul tok2 10 in
                    if range2 \<or> endptr2 \<noteq> [] \<or> id_value > 65535 then SkipLine
                    else let (dat, token) = client_data toks2 [] in
                    if token \<and> dat = [] then SkipLine
                    else SendPacket (of_nat type_value) (of_nat id_value) dat))"

definition line_packet :: "line_result \<Rightarrow> byte list option" where
  "line_packet r = (case r of
      SkipLine \<Rightarrow> None
    | SendPacket t i dat \<Rightarrow> Some (build_packet t i dat (of_nat (length dat))))"

text \<open>
  One pass of \<open>normal_client_thread\<close> over the lines of the file: 0 when the pass ends (the file
  is then rewound and read again), -1 when the connection is lost.
\<close>

fun client_pass :: "string list \<Rightarrow> send_event list \<Rightarrow> int io \<times> byte list \<times> send_event list" where
  "client_pass [] evs = (Return 0, [], evs)"
| "client_pass (line # lines) evs =
     (case line_packet (client_line line) of
        None \<Rightarrow> client_pass lines evs
      | Some packet \<Rightarrow>
          (case client_send_all packet evs of
             (Return r, out, evs') \<Rightarrow>
               if r = -1 then (Return (-1), out, evs')
               else let (r2, out2, evs2) = client_pass lines evs' in (r2, out @ out2, evs2)
           | (Blocked, out, evs') \<Rightarrow> (Blocked, out, evs')))"

text \<open>\<open>passes\<close> rounds of the endless loop; \<open>Blocked\<close> when they are over.\<close>

fun normal_client_loop ::
  "nat \<Rightarrow> string \<Rightarrow> send_event list \<Rightarrow> int io \<times> byte list \<times> send_event list" where
  "normal_client_loop 0 file evs = (Blocked, [], evs)"
| "normal_client_loop (Suc passes) file evs =
     (case client_pass (fgets_lines 255 file) evs of
        (Return r, out, evs') \<Rightarrow>
          if r = -1 then (Return (-1), out, evs')
          else let (r2, out2, evs2) = normal_client_loop passes file evs' in (r2, out @ out2, evs2)
      | (Blocked, out, evs') \<Rightarrow> (Blocked, out, evs'))"

section \<open>The latency client\<close>

text \<open>
  \<open>memcpy\<close> of an \<open>int64_t\<close> and an \<open>int32_t\<close> into the data. \<open>seconds\<close> and
  \<open>nanoseconds\<close> are the conversions of \<open>now.tv_sec\<close> and \<open>now.tv_nsec\<close> to those types.
\<close>

definition latency_data :: "int \<Rightarrow> int \<Rightarrow> byte list" where
  "latency_data tv_s tv_ns =
     (let seconds = (word_of_int tv_s :: u64); nanoseconds = (word_of_int tv_ns :: u32)
      in bytes_le 8 seconds @ bytes_le 4 nanoseconds)"

definition latency_packet :: "int \<Rightarrow> int \<Rightarrow> byte list" where
  "latency_packet tv_s tv_ns =
     build_packet LATENCY_SENSOR_TYPE LATENCY_SENSOR_ID (latency_data tv_s tv_ns) 12"

text \<open>
  The loop, with the results of \<open>clock_gettime\<close> (\<open>None\<close> is -1); \<open>Blocked\<close> when they are used up.
\<close>

fun latency_client_loop ::
  "(int \<times> int) option list \<Rightarrow> send_event list \<Rightarrow> int io \<times> byte list \<times> send_event list" where
  "latency_client_loop [] evs = (Blocked, [], evs)"
| "latency_client_loop (None # clocks) evs = (Return (-1), [], evs)"
| "latency_client_loop (Some (s, ns) # clocks) evs =
     (case client_send_all (latency_packet s ns) evs of
        (Return r, out, evs') \<Rightarrow>
          if r = -1 then (Return (-1), out, evs')
          else let (r2, out2, evs2) = latency_client_loop clocks evs' in (r2, out @ out2, evs2)
      | (Blocked, out, evs') \<Rightarrow> (Blocked, out, evs'))"

section \<open>Threads\<close>

text \<open>
  \<open>connect_to_server\<close> with the results of \<open>socket\<close>, \<open>inet_pton\<close> and \<open>connect\<close>: the descriptor and
  the ledger.
\<close>

record client_env =
  ce_socket :: int
  ce_inet_pton :: bool
  ce_connect :: bool
  ce_file :: "string option"
  ce_sends :: "send_event list"

definition client_connect_to_server :: "client_env \<Rightarrow> int \<times> sys_act list" where
  "client_connect_to_server env =
     (let sockfd = ce_socket env in
      if sockfd = -1 then (-1, [])
      else if \<not> ce_inet_pton env then (-1, [Acquire (ResFd sockfd), Release (ResFd sockfd)])
      else if \<not> ce_connect env then (-1, [Acquire (ResFd sockfd), Release (ResFd sockfd)])
      else (sockfd, [Acquire (ResFd sockfd)]))"

abbreviation data_file :: resource where "data_file \<equiv> ResMem ''data_file''"

definition normal_client_thread :: "client_env \<Rightarrow> nat \<Rightarrow> unit io \<times> byte list \<times> sys_act list" where
  "normal_client_thread env passes =
     (let (sockfd, acts) = client_connect_to_server env in
      if sockfd = -1 then (Return (), [], acts)
      else case ce_file env of
        None \<Rightarrow> (Return (), [], acts @ [Release (ResFd sockfd)])
      | Some file \<Rightarrow>
          (case normal_client_loop passes file (ce_sends env) of
             (Blocked, out, _) \<Rightarrow> (Blocked, out, acts @ [Acquire data_file])
           | (Return _, out, _) \<Rightarrow>
               (Return (), out, acts @ [Acquire data_file, Release data_file, Release (ResFd sockfd)])))"

definition latency_client_thread ::
  "client_env \<Rightarrow> (int \<times> int) option list \<Rightarrow> unit io \<times> byte list \<times> sys_act list" where
  "latency_client_thread env clocks =
     (let (sockfd, acts) = client_connect_to_server env in
      if sockfd = -1 then (Return (), [], acts)
      else case latency_client_loop clocks (ce_sends env) of
        (Blocked, out, _) \<Rightarrow> (Blocked, out, acts)
      | (Return _, out, _) \<Rightarrow> (Return (), out, acts @ [Release (ResFd sockfd)]))"

section \<open>The program\<close>

abbreviation threads_mem :: resource where "threads_mem \<equiv> ResMem ''threads''"
abbreviation args_mem :: resource where "args_mem \<equiv> ResMem ''args''"

text \<open>
  \<open>main\<close>: the exit status, the threads started, the threads joined and the ledger. \<open>created i\<close> is
  the success of \<open>pthread_create\<close> for thread \<open>i\<close>, \<open>ends i\<close> whether that thread ever ends, which
  \<open>pthread_join\<close> waits for. \<open>free\<close> of a null pointer does nothing.
\<close>

definition client_main ::
  "string list \<Rightarrow> bool \<Rightarrow> bool \<Rightarrow> (nat \<Rightarrow> bool) \<Rightarrow> (nat \<Rightarrow> bool)
    \<Rightarrow> int io \<times> nat list \<times> nat list \<times> sys_act list" where
  "client_main argv threads_ok args_ok created ends =
     (if length argv \<noteq> 6 then (Return 1, [], [], [])
      else let server_port = atoi (argv ! 2); number_of_clients = atoi (argv ! 4) in
      if server_port < 1 \<or> server_port > 65535 then (Return 1, [], [], [])
      else if number_of_clients < 1 then (Return 1, [], [], [])
      else let alloc = (if threads_ok then [Acquire threads_mem] else []) @
                       (if args_ok then [Acquire args_mem] else []);
               dealloc = (if threads_ok then [Release threads_mem] else []) @
                         (if args_ok then [Release args_mem] else []) in
      if \<not> threads_ok \<or> \<not> args_ok then (Return 1, [], [], alloc @ dealloc)
      else if \<not> created 0 then (Return 1, [], [], alloc @ dealloc)
      else let clients = [0..<nat number_of_clients]; started = filter created clients
           in if list_all ends started then (Return 0, started, clients, alloc @ dealloc)
              else (Blocked, started, takeWhile (\<lambda>i. created i \<longrightarrow> ends i) clients, alloc))"

section \<open>Packets on the wire\<close>

lemma unat_of_length [simp]: "length dat \<le> 12 \<Longrightarrow> unat (of_nat (length dat) :: u16) = length dat"
  by (simp add: unat_of_nat)

lemma of_length_pos: "length dat \<le> 12 \<Longrightarrow> 0 < (of_nat (length dat) :: u16) \<longleftrightarrow> dat \<noteq> []"
  by (simp add: word_greater_zero_iff flip: unat_eq_zero)

lemma build_packet_simps:
  assumes "length dat \<le> MAX_DATA_SIZE"
  shows "build_packet t i dat (of_nat (length dat)) =
    [SYNC_BYTE, t, ucast i, ucast (drop_bit 8 i), ucast (of_nat (length dat) :: u16),
     ucast (drop_bit 8 (of_nat (length dat) :: u16))] @ dat"
  using assms by (auto simp: build_packet_def client_SYNC_FIELD_def SYNC_BYTE_def MAX_DATA_SIZE_def of_length_pos)

lemma build_packet_wf:
  "length dat \<le> MAX_DATA_SIZE \<Longrightarrow> well_formed_packet (build_packet t i dat (of_nat (length dat)))"
  by (simp add: build_packet_simps well_formed_packet_def packet_size_defs MAX_DATA_SIZE_def)

lemma next_packet_wf:
  assumes "well_formed_packet p"
  shows "next_packet (p @ rest) = Inr (p, rest)"
  using assms by (auto simp: well_formed_packet_def next_packet_def packet_size_defs nth_append)

lemma split_packets_wf:
  "(\<And>p. p \<in> set ps \<Longrightarrow> well_formed_packet p) \<Longrightarrow> split_packets (concat ps) = (ps, Disconnected)"
proof (induction ps)
  case Nil
  then show ?case by (simp add: split_packets.simps next_packet_def packet_size_defs)
next
  case (Cons p ps)
  then show ?case by (simp add: split_packets.simps [of "p @ concat ps"] next_packet_wf)
qed

lemma client_data_length:
  "length dat \<le> MAX_DATA_SIZE \<Longrightarrow> client_data toks dat = (out, tok) \<Longrightarrow> length out \<le> MAX_DATA_SIZE"
  by (induction toks dat arbitrary: out tok rule: client_data.induct)
    (auto simp: Let_def split: if_splits prod.splits)

lemma client_line_length:
  "client_line line = SendPacket t i dat \<Longrightarrow> length dat \<le> MAX_DATA_SIZE"
  using client_data_length [of "[]"]
  by (auto simp: client_line_def Let_def split: list.splits if_splits prod.splits)

lemma line_packet_wf: "line_packet (client_line line) = Some p \<Longrightarrow> well_formed_packet p"
  using client_line_length build_packet_wf
  by (auto simp: line_packet_def split: line_result.splits)

definition file_packets :: "string list \<Rightarrow> byte list list" where
  "file_packets lines = List.map_filter (\<lambda>l. line_packet (client_line l)) lines"

lemma client_pass_sends:
  "client_pass lines evs = (Return 0, out, rest) \<Longrightarrow> out = concat (file_packets lines)"
proof (induction lines arbitrary: evs out)
  case Nil
  then show ?case by (simp add: file_packets_def map_filter_simps)
next
  case (Cons line lines)
  show ?case
  proof (cases "line_packet (client_line line)")
    case None
    with Cons show ?thesis by (simp add: file_packets_def map_filter_simps)
  next
    case (Some p)
    obtain r1 out1 evs1 where s: "client_send_all p evs = (r1, out1, evs1)"
      by (metis prod_cases3)
    with Cons.prems Some obtain k out2 where "r1 = Return k" "k \<noteq> -1"
      and pass: "client_pass lines evs1 = (Return 0, out2, rest)" and out: "out = out1 @ out2"
      by (auto split: io.splits if_splits prod.splits)
    with client_sink.transmit_results [of p evs] s have "r1 = Return 0"
      by (auto simp: client_send_all_def)
    with s client_sink.transmit_complete [of p evs out1 evs1] have "out1 = p"
      by (simp add: client_send_all_def)
    with Cons.IH [OF pass] out Some show ?thesis
      by (simp add: file_packets_def map_filter_simps)
  qed
qed

section \<open>Rendering a reading as a line\<close>

definition render_line :: "byte \<Rightarrow> u16 \<Rightarrow> byte list \<Rightarrow> string" where
  "render_line t i dat =
     show_base 16 (unat t) @
     blank_separated (show_base 10 (unat i) # map (\<lambda>b. show_base 16 (unat b)) dat)"

lemma strtoul_byte [simp]: "strtoul (show_base 16 (unat (b :: byte))) 16 = (unat b, [], False)"
proof -
  have "unat b < 256" using unsigned_less [of b, where ?'a = nat] by simp
  then show ?thesis
    using strtoul_show_base [of 16 "unat b" "[]"] by (simp add: ULONG_MAX_def)
qed

lemma strtoul_id [simp]: "strtoul (show_base 10 (unat (i :: u16))) 10 = (unat i, [], False)"
proof -
  have "unat i < 65536" using unsigned_less [of i, where ?'a = nat] by simp
  then show ?thesis
    using strtoul_show_base [of 10 "unat i" "[]"] by (simp add: ULONG_MAX_def)
qed

lemma unat_byte_le: "unat (b :: byte) \<le> 255"
  using unsigned_less [of b, where ?'a = nat] by simp

lemma unat_u16_le: "unat (i :: u16) \<le> 65535"
  using unsigned_less [of i, where ?'a = nat] by simp

lemma client_data_render:
  "length acc + length dat \<le> MAX_DATA_SIZE \<Longrightarrow>
   client_data (map (\<lambda>b. show_base 16 (unat b)) dat) acc =
     (acc @ dat, length acc + length dat = MAX_DATA_SIZE)"
  by (induction dat arbitrary: acc) (auto simp: unat_byte_le not_less)

lemma strtok_all_render_line:
  "strtok_all (render_line t i dat) =
     show_base 16 (unat t) # show_base 10 (unat i) # map (\<lambda>b. show_base 16 (unat b)) dat"
proof -
  define toks where "toks = show_base 10 (unat i) # map (\<lambda>b. show_base 16 (unat b)) dat"
  obtain r where r: "blank_separated toks = CHR '' '' # r"
    by (simp add: toks_def blank_separated_def)
  have "strtok_all (blank_separated toks) = toks"
    by (rule strtok_all_blank_separated) (auto simp: toks_def token_show_base)
  moreover have "token (show_base 16 (unat t))" by (rule token_show_base) auto
  ultimately show ?thesis
    using strtok_all_cons [of "show_base 16 (unat t)" "CHR '' ''" r] r
    by (simp add: render_line_def toks_def token_def)
qed

lemma hd_show_base_hash: "hd (show_base 16 n) \<noteq> CHR ''#''"
proof -
  obtain d cs where "show_base 16 n = digit_char d # cs" "d < 16"
    using show_base_hd_tl [of 16 n] by auto
  then show ?thesis by (simp add: digit_char_neq)
qed

lemma client_line_render:
  assumes "length dat \<le> MAX_DATA_SIZE"
  shows "client_line (render_line t i dat) = SendPacket t i dat"
proof -
  have "client_data (map (\<lambda>b. show_base 16 (unat b)) dat) [] = (dat, length dat = MAX_DATA_SIZE)"
    using client_data_render [of "[]" dat] assms by simp
  then show ?thesis
    using unat_byte_le [of t] unat_u16_le [of i]
    by (auto simp: client_line_def strtok_all_render_line hd_show_base_hash MAX_DATA_SIZE_def)
qed

section \<open>What a client puts on the wire\<close>

lemma client_send_all_prefix:
  assumes "client_send_all p evs = (r, out, rest)"
  shows "prefix out p \<and> r \<in> {Return 0, Return (-1), Blocked} \<and> (r = Return 0 \<longrightarrow> out = p)"
  using client_sink.transmit_prefix [of p evs r out rest] client_sink.transmit_results [of p evs] assms
  by (auto simp: client_send_all_def take_is_prefix)

lemma client_pass_prefix:
  assumes "client_pass lines evs = (r, out, rest)"
  shows "prefix out (concat (file_packets lines)) \<and> r \<in> {Return 0, Return (-1), Blocked}"
  using assms
proof (induction lines arbitrary: evs out)
  case Nil
  then show ?case by (simp add: file_packets_def map_filter_simps)
next
  case (Cons line lines)
  show ?case
  proof (cases "line_packet (client_line line)")
    case None
    with Cons show ?thesis by (simp add: file_packets_def map_filter_simps)
  next
    case (Some p)
    then have fp: "concat (file_packets (line # lines)) = p @ concat (file_packets lines)"
      by (simp add: file_packets_def map_filter_simps)
    obtain r1 out1 evs1 where s: "client_send_all p evs = (r1, out1, evs1)" by (metis prod_cases3)
    note pre = client_send_all_prefix [OF s]
    show ?thesis
    proof (cases "r1 = Return 0")
      case True
      with Cons.prems Some s obtain out2 where
        "client_pass lines evs1 = (r, out2, rest)" "out = out1 @ out2" by (auto split: prod.splits)
      with Cons.IH [of evs1 out2] pre True show ?thesis by (simp add: fp)
    next
      case False
      with Cons.prems Some s pre have "out = out1" "r = r1" by auto
      with pre show ?thesis unfolding fp by (simp add: prefix_prefix)
    qed
  qed
qed

lemma normal_client_loop_prefix:
  "normal_client_loop passes file evs = (r, out, rest) \<Longrightarrow>
   prefix out (concat (concat (replicate passes (file_packets (fgets_lines 255 file)))))"
proof (induction passes arbitrary: evs out)
  case (Suc passes)
  obtain r1 out1 evs1 where p: "client_pass (fgets_lines 255 file) evs = (r1, out1, evs1)" by (metis prod_cases3)
  note pre = client_pass_prefix [OF p]
  show ?case
  proof (cases "r1 = Return 0")
    case True
    with Suc.prems p obtain out2 where
      "normal_client_loop passes file evs1 = (r, out2, rest)" "out = out1 @ out2" by (auto split: prod.splits)
    with Suc.IH [of evs1 out2] client_pass_sends [of "fgets_lines 255 file" evs out1 evs1] p True show ?thesis
      by simp
  next
    case False
    with Suc.prems p pre have "out = out1" by auto
    with pre show ?thesis by (simp add: prefix_prefix)
  qed
qed simp

section \<open>Properties\<close>

text \<open>
  C23: Whatever the data file contains and however the connection behaves, a simulated client sends
  nothing but a beginning of the sequence of its packets, pass after pass over the file, and each
  of these packets is one the acquisition daemon accepts: sync byte, matching length, at most 12
  bytes of data. Malformed lines send nothing.
\<close>

theorem client_sends_only_packets:
  assumes "normal_client_thread env passes = (r, out, acts)"
  shows "\<exists>ps. prefix out (concat ps) \<and> (\<forall>p \<in> set ps. well_formed_packet p)"
proof (cases "ce_file env")
  case (Some contents)
  let ?ps = "concat (replicate passes (file_packets (fgets_lines 255 contents)))"
  have "well_formed_packet p" if "p \<in> set ?ps" for p
    using that line_packet_wf by (auto simp: file_packets_def List.map_filter_def split: if_splits)
  moreover have "prefix out (concat ?ps)"
    using assms Some normal_client_loop_prefix [of passes contents "ce_sends env"]
    by (auto simp: normal_client_thread_def client_connect_to_server_def Let_def
        split: prod.splits io.splits if_splits)
  ultimately show ?thesis by blast
next
  case None
  with assms have "out = []" by (auto simp: normal_client_thread_def split: prod.splits if_splits)
  then show ?thesis by (auto intro: exI [of _ "[]"])
qed

definition example_client_env :: client_env where
  "example_client_env = \<lparr>ce_socket = 5, ce_inet_pton = True, ce_connect = True,
     ce_file = Some (''# comment'' @ [NEWLINE] @ ''1B 7'' @ [NEWLINE]), ce_sends = [Sent 3, SendFail]\<rparr>"

theorem client_sends_only_packets_witness:
  "\<exists>ps. prefix (fst (snd (normal_client_thread example_client_env 2))) (concat ps) \<and>
     (\<forall>p \<in> set ps. well_formed_packet p)"
  using client_sends_only_packets [of example_client_env 2 "fst (normal_client_thread example_client_env 2)"
      "fst (snd (normal_client_thread example_client_env 2))"
      "snd (snd (normal_client_thread example_client_env 2))"] by simp

text \<open>
  Resource safety of the simulator: a client thread that returns has closed its connection and
  its file exactly once.
\<close>

theorem client_threads_release:
  assumes "normal_client_thread env passes = (Return u, out, acts)"
    and "latency_client_thread env' clocks = (Return u', out', acts')"
  shows "held [] acts = Some [] \<and> held [] acts' = Some []"
  using assms
  by (auto simp: normal_client_thread_def latency_client_thread_def client_connect_to_server_def Let_def
      split: prod.splits io.splits if_splits option.splits)

theorem client_threads_release_witness:
  "held [] (snd (snd (normal_client_thread (example_client_env\<lparr>ce_file := None\<rparr>) 1))) = Some [] \<and>
   held [] (snd (snd (latency_client_thread example_client_env [None]))) = Some []"
proof -
  have "normal_client_thread (example_client_env\<lparr>ce_file := None\<rparr>) 1 = (Return (), [],
      snd (snd (normal_client_thread (example_client_env\<lparr>ce_file := None\<rparr>) 1)))"
    "latency_client_thread example_client_env [None] = (Return (), [],
      snd (snd (latency_client_thread example_client_env [None])))"
    by (simp_all add: normal_client_thread_def latency_client_thread_def client_connect_to_server_def
        example_client_env_def)
  from client_threads_release [OF this] show ?thesis .
qed

text \<open>
  When \<open>pthread_create\<close> fails for a client after the first, \<open>main\<close> reports it and goes on, and
  later joins that thread all the same: \<open>pthread_join\<close> on a handle that was never set. Every
  thread it started it does join, and its memory is freed.
\<close>

theorem client_main_joins_unstarted:
  assumes "client_main argv True True created (\<lambda>_. True) = (Return 0, started, joined, acts)"
    and "0 < i" "int i < atoi (argv ! 4)" "\<not> created i"
  shows "i \<in> set joined \<and> i \<notin> set started \<and> set started \<subseteq> set joined \<and> held [] acts = Some []"
  using assms by (auto simp: client_main_def Let_def split: if_splits)

theorem client_main_joins_unstarted_witness:
  "1 \<in> set (fst (snd (snd (client_main [''client-sensors'', ''10.0.0.2'', ''9000'', ''f'', ''3'', ''0''] True True
      (\<lambda>i. i \<noteq> 1) (\<lambda>_. True)))))"
proof -
  let ?argv = "[''client-sensors'', ''10.0.0.2'', ''9000'', ''f'', ''3'', ''0'']"
  let ?m = "client_main ?argv True True (\<lambda>i. i \<noteq> 1) (\<lambda>_. True)"
  have n: "atoi (?argv ! 4) = 3" "atoi (?argv ! 2) = 9000"
    by (simp_all add: atoi_def strtoll_def text_eval LLONG_MAX_def LLONG_MIN_def)
  then have "fst ?m = Return 0" by (simp add: client_main_def Let_def list_all_iff)
  then have "?m = (Return 0, fst (snd ?m), fst (snd (snd ?m)), snd (snd (snd ?m)))"
    by (metis prod.collapse)
  from client_main_joins_unstarted [OF this, of 1] n show ?thesis by simp
qed

end
