(* ===== verification/Processing.thy ===== *)
theory Processing
  imports Sense Message_Queue Server "HOL-Library.Sublist"
begin

text \<open>
  \<open>src/processing_d.c\<close>: the processing daemon takes packets off \<open>/mq-acquire-process\<close>,
  turns each into a \<open>Sensor_t\<close> frame (\<open>generateFrame\<close>) and forwards it to the logging and the
  telemetry queue (\<open>forwardFrame\<close>). The main loop runs against scripted results of
  \<open>mq_receive\<close>; the clocks and what the readers of the two output queues take between two
  iterations are functions of the iteration number.
\<close>

definition proc_HEADER_SIZE :: nat where "proc_HEADER_SIZE = 6"
definition proc_DATA_SIZE :: nat where "proc_DATA_SIZE = 12"
definition proc_PACKET_SIZE :: nat where "proc_PACKET_SIZE = proc_DATA_SIZE + proc_HEADER_SIZE"
definition proc_SYNC_FIELD :: byte where "proc_SYNC_FIELD = 0xAA"
definition MQ_PRIORITY :: nat where "MQ_PRIORITY = 3"

lemmas proc_size_defs = proc_HEADER_SIZE_def proc_DATA_SIZE_def proc_PACKET_SIZE_def

section \<open>Frames\<close>

text \<open>
  \<open>generateFrame\<close> with the results of the two \<open>clock_gettime\<close> calls (\<open>None\<close> is -1). The
  caller discards the frame when -1 is returned.
\<close>

definition generateFrame ::
  "byte list option \<Rightarrow> Sensor_t option \<Rightarrow> nat \<Rightarrow> sensor_timespec_t option
    \<Rightarrow> sensor_timespec_t option \<Rightarrow> Sensor_t option" where
  "generateFrame buffer frame sz realtime monotonic =
     (case (buffer, frame) of
        (Some buf, Some fr) \<Rightarrow>
          if sz < proc_HEADER_SIZE then None
          else if buf ! 0 \<noteq> proc_SYNC_FIELD then None
          else
            let t = findSensorType (buf ! 1) in
            if t = SENSOR_TYPE_UNSUPPORTED then None
            else
              let i = le16 (buf ! 2) (buf ! 3); len = le16 (buf ! 4) (buf ! 5) in
              if unat len > proc_DATA_SIZE then None
              else if unat len + proc_HEADER_SIZE \<noteq> sz then None
              else
                let fr1 = fr\<lparr>s_type := t, s_id := i\<rparr>;
                    fr2 = (case nameSensor (Some (s_name fr1)) (s_id fr1) (s_type fr1) of
                             None \<Rightarrow> fr1 | Some nm \<Rightarrow> fr1\<lparr>s_name := nm\<rparr>)
                in case realtime of None \<Rightarrow> None | Some rt \<Rightarrow>
                   case monotonic of None \<Rightarrow> None | Some mt \<Rightarrow>
                   let fr3 = fr2\<lparr>s_timestamp := rt, s_last_seen_time := mt,
                               s_state := SENSOR_FRAME_DEFAULT\<rparr>
                   in if len = 0 then Some (fr3\<lparr>s_frame_type := SENSOR_HEARTBEAT\<rparr>)
                      else
                        (case recordSensorData (Some (s_data fr3))
                            (Some (drop proc_HEADER_SIZE buf)) len (s_type fr3) of
                           None \<Rightarrow> None
                         | Some d \<Rightarrow> Some (fr3\<lparr>s_frame_type := SENSOR_DATA, s_data := d\<rparr>))
      | _ \<Rightarrow> None)"

section \<open>Forwarding\<close>

text \<open>The two output queues, with the frames each has accepted so far.\<close>

record proc_queues =
  log_mq :: "Sensor_t mqueue"
  telemetry_mq :: "Sensor_t mqueue"
  log_accepted :: "Sensor_t list"
  telemetry_accepted :: "Sensor_t list"

definition send_log :: "Sensor_t \<Rightarrow> proc_queues \<Rightarrow> errno option io \<times> proc_queues" where
  "send_log fr qs =
     (let (r, q) = mq_send True (log_mq qs) fr sizeof_Sensor_t MQ_PRIORITY
      in (r, qs\<lparr>log_mq := q,
            log_accepted := log_accepted qs @ (if r = Return None then [fr] else [])\<rparr>))"

definition send_telemetry :: "Sensor_t \<Rightarrow> proc_queues \<Rightarrow> errno option io \<times> proc_queues" where
  "send_telemetry fr qs =
     (let (r, q) = mq_send True (telemetry_mq qs) fr sizeof_Sensor_t MQ_PRIORITY
      in (r, qs\<lparr>telemetry_mq := q,
            telemetry_accepted := telemetry_accepted qs @ (if r = Return None then [fr] else [])\<rparr>))"

definition forwardFrame :: "Sensor_t option \<Rightarrow> proc_queues \<Rightarrow> int \<times> proc_queues" where
  "forwardFrame frame qs =
     (case frame of
        None \<Rightarrow> (-1, qs)
      | Some fr \<Rightarrow>
          let (logged, qs1) =
                (if s_frame_type fr = SENSOR_DATA then send_log fr qs else (Return None, qs))
          in if logged \<noteq> Return None then (-1, qs1)
             else let (sent, qs2) = send_telemetry fr qs1
                  in if sent \<noteq> Return None then (-1, qs2) else (0, qs2))"

section \<open>Receiving\<close>

datatype mq_rx_event = MqMessage "byte list" | MqIntr int | MqFail

text \<open>
  \<open>receivePacket\<close>: result, buffer, \<open>exitRQ\<close> and the events left. A message overwrites the
  front of the buffer.
\<close>

fun receivePacket ::
  "byte list \<Rightarrow> bool \<Rightarrow> mq_rx_event list \<Rightarrow> int io \<times> byte list \<times> bool \<times> mq_rx_event list" where
  "receivePacket buffer ex [] = (Blocked, buffer, ex, [])"
| "receivePacket buffer ex (MqIntr sg # es) =
     (let ex' = signalHandler sg ex
      in if ex' then (Return (-1), buffer, ex', es) else receivePacket buffer ex' es)"
| "receivePacket buffer ex (MqFail # es) = (Return (-1), buffer, ex, es)"
| "receivePacket buffer ex (MqMessage m # es) =
     (let n = length m; buffer' = m @ drop n buffer
      in if n < proc_HEADER_SIZE then (Return (-1), buffer', ex, es)
         else if n > proc_PACKET_SIZE then (Return (-1), buffer', ex, es)
         else (Return (int n), buffer', ex, es))"

lemma receivePacket_shrinks:
  "receivePacket buffer ex evs = (Return r, buffer', ex', evs') \<Longrightarrow> length evs' < length evs"
  by (induction buffer ex evs rule: receivePacket.induct)
    (fastforce simp: Let_def split: if_splits)+

section \<open>The main loop\<close>

record proc_world =
  clocks :: "nat \<Rightarrow> sensor_timespec_t option \<times> sensor_timespec_t option"
  takes :: "nat \<Rightarrow> nat \<times> nat"

text \<open>The other daemons receive \<open>fst (takes w k)\<close> and \<open>snd (takes w k)\<close> messages.\<close>

definition readers :: "proc_world \<Rightarrow> nat \<Rightarrow> proc_queues \<Rightarrow> proc_queues" where
  "readers w k qs =
     qs\<lparr>log_mq := (log_mq qs)\<lparr>mq_msgs := drop (fst (takes w k)) (mq_msgs (log_mq qs))\<rparr>,
        telemetry_mq :=
          (telemetry_mq qs)\<lparr>mq_msgs := drop (snd (takes w k)) (mq_msgs (telemetry_mq qs))\<rparr>\<rparr>"

text \<open>
  The loop from iteration \<open>k\<close> with the stack buffer as it is; \<open>Return ()\<close> when it has been left
  on \<open>exitRQ\<close>.
\<close>

function proc_loop ::
  "proc_world \<Rightarrow> nat \<Rightarrow> byte list \<Rightarrow> bool \<Rightarrow> mq_rx_event list \<Rightarrow> proc_queues \<Rightarrow> unit io \<times> proc_queues" where
  "proc_loop w k buffer ex evs qs0 =
     (if ex then (Return (), qs0)
      else let qs = readers w k qs0 in
      case receivePacket buffer ex evs of
        (Blocked, _) \<Rightarrow> (Blocked, qs)
      | (Return packet_size, buffer', ex', evs') \<Rightarrow>
          if packet_size = -1 then
            (if ex' then (Return (), qs) else proc_loop w (Suc k) buffer' ex' evs' qs)
          else
            (case generateFrame (Some buffer') (Some zero_sensor) (nat packet_size)
                (fst (clocks w k)) (snd (clocks w k)) of
               None \<Rightarrow> proc_loop w (Suc k) buffer' ex' evs' qs
             | Some fr \<Rightarrow>
                 proc_loop w (Suc k) buffer' ex' evs' (snd (forwardFrame (Some fr) qs))))"
  by pat_completeness auto
termination
  by (relation "measure (\<lambda>(w, k, buffer, ex, evs, qs). length evs)")
    (auto dest: receivePacket_shrinks [OF sym])

declare proc_loop.simps [simp del]

section \<open>The process\<close>

definition RX_ACQUIRE_MQ_NAME :: string where "RX_ACQUIRE_MQ_NAME = ''/mq-acquire-process''"
definition TX_LOG_MQ_NAME :: string where "TX_LOG_MQ_NAME = ''/mq-process-log''"
definition TX_TELEMETRY_MQ_NAME :: string where "TX_TELEMETRY_MQ_NAME = ''/mq-process-telemetry''"

lemmas mq_name_defs = RX_ACQUIRE_MQ_NAME_def TX_LOG_MQ_NAME_def TX_TELEMETRY_MQ_NAME_def

record proc_ipc_results =
  pi_rx_open :: bool
  pi_getattr :: "int option"
  pi_log_open :: bool
  pi_telemetry_open :: bool

text \<open>\<open>pi_getattr\<close> is the queue's \<open>mq_msgsize\<close>, \<open>None\<close> when \<open>mq_getattr\<close> fails.\<close>

definition proc_ipc_init :: "proc_ipc_results \<Rightarrow> int \<times> sys_act list" where
  "proc_ipc_init env =
     (if \<not> pi_rx_open env then (-1, [])
      else let rx = ResMq RX_ACQUIRE_MQ_NAME; lg = ResMq TX_LOG_MQ_NAME;
               tel = ResMq TX_TELEMETRY_MQ_NAME in
      case pi_getattr env of
        None \<Rightarrow> (-1, [Acquire rx, Release rx])
      | Some msgsize \<Rightarrow>
          if msgsize < int proc_PACKET_SIZE then (-1, [Acquire rx, Release rx])
          else if \<not> pi_log_open env then (-1, [Acquire rx, Release rx])
          else if \<not> pi_telemetry_open env then
            (-1, [Acquire rx, Acquire lg, Release rx, Release lg])
          else (0, [Acquire rx, Acquire lg, Acquire tel]))"

text \<open>The attributes the two output queues are created with.\<close>

definition proc_tx_attr :: "Sensor_t mqueue" where
  "proc_tx_attr = \<lparr>mq_maxmsg = 10, mq_msgsize = sizeof_Sensor_t, mq_msgs = [], mq_fault = None\<rparr>"

definition proc_main ::
  "init_results \<Rightarrow> proc_ipc_results \<Rightarrow> proc_world \<Rightarrow> byte list \<Rightarrow> mq_rx_event list \<Rightarrow> process
    \<Rightarrow> proc_queues \<Rightarrow> init_outcome io \<times> proc_queues \<times> sys_act list" where
  "proc_main ini ipc w buffer evs p qs =
     (case daemon_init ini p of
        (Exit v, _) \<Rightarrow> (Return (Exit v), qs, [])
      | (Ret d, p1) \<Rightarrow>
          if d = -1 then (Return (Ret (-1)), qs, [])
          else if fst (signals_init ini p1) = -1 then (Return (Ret (-1)), qs, [])
          else let (i, acts) = proc_ipc_init ipc in
          if i = -1 then (Return (Ret (-1)), qs, acts)
          else (case proc_loop w 0 buffer False evs qs of
                  (Blocked, qs') \<Rightarrow> (Blocked, qs', acts)
                | (Return _, qs') \<Rightarrow>
                    (Return (Ret 0), qs', acts @ [Release (ResMq RX_ACQUIRE_MQ_NAME),
                       Release (ResMq TX_LOG_MQ_NAME), Release (ResMq TX_TELEMETRY_MQ_NAME)])))"

section \<open>What a packet means\<close>

text \<open>
  The packets \<open>generateFrame\<close> accepts: complete header, sync byte, supported type, announced
  length equal to the received length, and no data or exactly the data of the type.
\<close>

definition packet_ok :: "byte list \<Rightarrow> nat \<Rightarrow> bool" where
  "packet_ok buf sz \<longleftrightarrow>
     proc_HEADER_SIZE \<le> sz \<and> buf ! 0 = proc_SYNC_FIELD \<and> supported (findSensorType (buf ! 1)) \<and>
     sz = proc_HEADER_SIZE + unat (le16 (buf ! 4) (buf ! 5)) \<and>
     (sz = proc_HEADER_SIZE \<or> sz = proc_HEADER_SIZE + data_len (findSensorType (buf ! 1)))"

text \<open>The frame an accepted packet stands for.\<close>

definition packet_frame ::
  "byte list \<Rightarrow> nat \<Rightarrow> sensor_timespec_t \<Rightarrow> sensor_timespec_t \<Rightarrow> Sensor_t" where
  "packet_frame buf sz rt mt =
     \<lparr>s_data = (if sz = proc_HEADER_SIZE then zero_data
        else the (recordSensorData (Some zero_data) (Some (drop proc_HEADER_SIZE buf))
          (le16 (buf ! 4) (buf ! 5)) (findSensorType (buf ! 1)))),
      s_timestamp = rt, s_last_seen_time = mt, s_id = le16 (buf ! 2) (buf ! 3),
      s_name = the (nameSensor (Some []) (le16 (buf ! 2) (buf ! 3)) (findSensorType (buf ! 1))),
      s_type = findSensorType (buf ! 1), s_state = SENSOR_FRAME_DEFAULT,
      s_frame_type = (if sz = proc_HEADER_SIZE then SENSOR_HEARTBEAT else SENSOR_DATA)\<rparr>"

lemma recordSensorData_Some_iff:
  "recordSensorData (Some target) (Some raw) n t \<noteq> None \<longleftrightarrow> supported t \<and> unat n = data_len t"
  using u16_eq_of_nat_iff [of 12 n] u16_eq_of_nat_iff [of 8 n] u16_eq_of_nat_iff [of 4 n]
  by (cases t) auto

lemma generateFrame_eq:
  "generateFrame (Some buf) (Some zero_sensor) sz (Some rt) (Some mt) =
     (if packet_ok buf sz then Some (packet_frame buf sz rt mt) else None)"
proof -
  define t where "t = findSensorType (buf ! Suc 0)"
  define n where "n = le16 (buf ! 4) (buf ! 5)"
  have sup: "t = SENSOR_TYPE_UNSUPPORTED \<longleftrightarrow> \<not> supported t"
    unfolding t_def using findSensorType_supported by blast
  note unf = generateFrame_def packet_ok_def packet_frame_def Let_def t_def [symmetric]
    n_def [symmetric] zero_sensor_def proc_size_defs
  consider (header) "sz < 6 \<or> buf ! 0 \<noteq> proc_SYNC_FIELD \<or> \<not> supported t \<or> sz \<noteq> 6 + unat n \<or> 12 < unat n"
    | (heartbeat) "buf ! 0 = proc_SYNC_FIELD" "supported t" "sz = 6" "n = 0"
    | (data) "buf ! 0 = proc_SYNC_FIELD" "supported t" "sz = 6 + unat n" "unat n \<le> 12" "n \<noteq> 0"
    by fastforce
  then show ?thesis
  proof cases
    case header
    then show ?thesis using data_len_bound [of t] by (auto simp: unf sup)
  next
    case heartbeat
    then show ?thesis by (cases t) (simp_all add: unf nameSensor_def)
  next
    case data
    then have "unat n \<noteq> 0" by (simp add: unat_eq_zero)
    with data recordSensorData_Some_iff [of zero_data "drop 6 buf" n t] show ?thesis
      by (cases "recordSensorData (Some zero_data) (Some (drop 6 buf)) n t"; cases t)
        (auto simp: unf nameSensor_def)
  qed
qed

lemma generateFrame_packet_ok:
  assumes "generateFrame (Some buf) (Some zero_sensor) sz rt mt = Some fr"
  obtains r m where "rt = Some r" "mt = Some m" "packet_ok buf sz" "fr = packet_frame buf sz r m"
proof (cases rt; cases mt)
  fix r m
  assume "rt = Some r" "mt = Some m"
  with assms that show thesis by (auto simp: generateFrame_eq split: if_splits)
qed (use assms in \<open>auto simp: generateFrame_def Let_def split: if_splits option.splits\<close>)

section \<open>Forwarding, by cases\<close>

abbreviation is_data :: "Sensor_t \<Rightarrow> bool" where
  "is_data fr \<equiv> s_frame_type fr = SENSOR_DATA"

definition accepts :: "Sensor_t mqueue \<Rightarrow> bool" where
  "accepts q \<longleftrightarrow> mq_fault q = None \<and> sizeof_Sensor_t \<le> mq_msgsize q \<and>
     length (mq_msgs q) < mq_maxmsg q"

definition enqueue :: "Sensor_t \<Rightarrow> Sensor_t mqueue \<Rightarrow> Sensor_t mqueue" where
  "enqueue fr q = q\<lparr>mq_msgs := insert_message (MQ_PRIORITY, sizeof_Sensor_t, fr) (mq_msgs q)\<rparr>"

definition refusal :: "Sensor_t mqueue \<Rightarrow> errno" where
  "refusal q = (case mq_fault q of Some e \<Rightarrow> e
     | None \<Rightarrow> if sizeof_Sensor_t > mq_msgsize q then EMSGSIZE else EAGAIN)"

lemma mq_send_frame:
  "mq_send True q fr sizeof_Sensor_t MQ_PRIORITY =
     (if accepts q then (Return None, enqueue fr q) else (Return (Some (refusal q)), q))"
  by (auto simp: accepts_def enqueue_def refusal_def mq_send_def split: option.splits)

lemma send_log_eq:
  "send_log fr qs =
     (if accepts (log_mq qs)
      then (Return None, qs\<lparr>log_mq := enqueue fr (log_mq qs), log_accepted := log_accepted qs @ [fr]\<rparr>)
      else (Return (Some (refusal (log_mq qs))), qs))"
  unfolding send_log_def mq_send_frame by simp

lemma send_telemetry_eq:
  "send_telemetry fr qs =
     (if accepts (telemetry_mq qs)
      then (Return None, qs\<lparr>telemetry_mq := enqueue fr (telemetry_mq qs),
              telemetry_accepted := telemetry_accepted qs @ [fr]\<rparr>)
      else (Return (Some (refusal (telemetry_mq qs))), qs))"
  unfolding send_telemetry_def mq_send_frame by simp

lemma forwardFrame_cases:
  "forwardFrame (Some fr) qs =
     (if is_data fr \<and> \<not> accepts (log_mq qs) then (-1, qs)
      else let qs1 = (if is_data fr
             then qs\<lparr>log_mq := enqueue fr (log_mq qs), log_accepted := log_accepted qs @ [fr]\<rparr>
             else qs)
           in if accepts (telemetry_mq qs)
              then (0, qs1\<lparr>telemetry_mq := enqueue fr (telemetry_mq qs),
                     telemetry_accepted := telemetry_accepted qs @ [fr]\<rparr>)
              else (-1, qs1))"
  by (simp add: forwardFrame_def send_log_eq send_telemetry_eq)

section \<open>The main loop, by induction\<close>

text \<open>The four ways an iteration goes on or ends.\<close>

lemma proc_loop_step:
  assumes "receivePacket buffer False evs = (res, buffer', ex', evs')"
  shows "proc_loop w k buffer False evs qs =
    (case res of
       Blocked \<Rightarrow> (Blocked, readers w k qs)
     | Return n \<Rightarrow>
         if n = -1 then
           (if ex' then (Return (), readers w k qs)
            else proc_loop w (Suc k) buffer' ex' evs' (readers w k qs))
         else (case generateFrame (Some buffer') (Some zero_sensor) (nat n)
                  (fst (clocks w k)) (snd (clocks w k)) of
                 None \<Rightarrow> proc_loop w (Suc k) buffer' ex' evs' (readers w k qs)
               | Some fr \<Rightarrow> proc_loop w (Suc k) buffer' ex' evs'
                   (snd (forwardFrame (Some fr) (readers w k qs)))))"
  by (subst proc_loop.simps) (auto simp: Let_def assms split: io.split option.split)

lemma proc_loop_exit [simp]: "proc_loop w k buffer True evs qs = (Return (), qs)"
  by (simp add: proc_loop.simps)

text \<open>
  An invariant of the queues that every iteration keeps holds at the end. \<open>P\<close> must hold after
  the readers have taken messages and after a frame of an accepted packet is forwarded.
\<close>

lemma proc_loop_invariant:
  assumes "P qs"
    and rd: "\<And>k qs. P qs \<Longrightarrow> P (readers w k qs)"
    and fw: "\<And>buf sz r m qs. packet_ok buf sz \<Longrightarrow> P qs \<Longrightarrow>
      P (snd (forwardFrame (Some (packet_frame buf sz r m)) qs))"
  shows "P (snd (proc_loop w k buffer ex evs qs))"
  using assms(1)
proof (induction evs arbitrary: k buffer ex qs rule: measure_induct_rule [where f = length])
  case (less evs)
  show ?case
  proof (cases ex)
    case False
    obtain res buffer' ex' evs' where rp: "receivePacket buffer False evs = (res, buffer', ex', evs')"
      by (metis prod_cases4)
    have r: "P (readers w k qs)" using rd less.prems by blast
    have IH: "P (snd (proc_loop w (Suc k) buffer' ex' evs' qs'))" if "res = Return n" "P qs'" for n qs'
      using less.IH [OF receivePacket_shrinks] rp that by blast
    have "P (snd (forwardFrame (Some fr) (readers w k qs)))"
      if "generateFrame (Some buffer') (Some zero_sensor) sz rt mt = Some fr" for fr sz rt mt
      using that by (rule generateFrame_packet_ok) (simp add: fw r)
    with r IH False show ?thesis
      by (cases res; cases ex') (auto simp: proc_loop_step [OF rp] split: option.splits)
  qed (use less.prems in simp)
qed

text \<open>
  The histories: only data frames are logged, and the data frames handed to telemetry are
  among the logged ones, in the same order.
\<close>

definition logged_first :: "proc_queues \<Rightarrow> bool" where
  "logged_first qs \<longleftrightarrow> list_all is_data (log_accepted qs) \<and>
     subseq (filter is_data (telemetry_accepted qs)) (log_accepted qs)"

lemma readers_accepted [simp]:
  "log_accepted (readers w k qs) = log_accepted qs"
  "telemetry_accepted (readers w k qs) = telemetry_accepted qs"
  by (simp_all add: readers_def)

lemma logged_first_forward:
  "logged_first qs \<Longrightarrow> logged_first (snd (forwardFrame (Some fr) qs))"
  by (auto simp: forwardFrame_cases logged_first_def Let_def intro: list_emb_append_mono)

section \<open>Properties\<close>

definition no_frames :: proc_queues where
  "no_frames = \<lparr>log_mq = proc_tx_attr, telemetry_mq = proc_tx_attr, log_accepted = [],
     telemetry_accepted = []\<rparr>"

text \<open>
  C11: Log before show: in every run of the processing loop (any packets, signals, clock and queue
  behaviour), only data frames reach the logging queue, and the data frames that reach telemetry
  are among the logged ones, in the same order.
\<close>

theorem telemetry_data_was_logged:
  "let qs = snd (proc_loop w k buffer ex evs no_frames) in
   list_all is_data (log_accepted qs) \<and>
   subseq (filter is_data (telemetry_accepted qs)) (log_accepted qs)"
proof -
  have "logged_first no_frames" by (simp add: logged_first_def no_frames_def)
  then have "logged_first (snd (proc_loop w k buffer ex evs no_frames))"
    by (rule proc_loop_invariant) (simp_all add: logged_first_forward, simp add: logged_first_def)
  then show ?thesis by (simp add: logged_first_def Let_def)
qed

text \<open>
  What the readers of the two queues may rely on: the type is supported, the name is the type's
  base with the id in hexadecimal, the state is unset, and a heartbeat carries no data.
\<close>

definition frame_ok :: "Sensor_t \<Rightarrow> bool" where
  "frame_ok fr \<longleftrightarrow>
     supported (s_type fr) \<and> Some (s_name fr) = nameSensor (Some []) (s_id fr) (s_type fr) \<and>
     length (s_name fr) < SENSOR_NAME_SIZE \<and> s_state fr = SENSOR_FRAME_DEFAULT \<and>
     (s_frame_type fr = SENSOR_HEARTBEAT \<longrightarrow> s_data fr = zero_data)"

lemma packet_frame_ok: "packet_ok buf sz \<Longrightarrow> frame_ok (packet_frame buf sz rt mt)"
  using snprintf_bound [of SENSOR_NAME_SIZE]
  by (auto simp: packet_ok_def packet_frame_def frame_ok_def supported_def nameSensor_def
      SENSOR_NAME_SIZE_def)

text \<open>
  C14: Every frame that any run of the processing loop puts into the logging or the telemetry queue
  is well formed: supported type, canonical and untruncated name, unset state, and zero data in a
  heartbeat.
\<close>

theorem forwarded_frames_ok:
  "let qs = snd (proc_loop w k buffer ex evs no_frames) in
   list_all frame_ok (log_accepted qs) \<and> list_all frame_ok (telemetry_accepted qs)"
proof -
  define P where "P qs \<longleftrightarrow> list_all frame_ok (log_accepted qs) \<and>
    list_all frame_ok (telemetry_accepted qs)" for qs :: proc_queues
  have "P no_frames" by (simp add: P_def no_frames_def)
  then have "P (snd (proc_loop w k buffer ex evs no_frames))"
    by (rule proc_loop_invariant)
      (auto simp: P_def forwardFrame_cases Let_def packet_frame_ok)
  then show ?thesis by (simp add: P_def Let_def)
qed

text \<open>
  C31: Back-pressure couples the two consumers: a data frame that finds the logging queue full is
  refused before telemetry is tried, so telemetry receives nothing of it although its own queue
  has room. A heartbeat under the same conditions is delivered.
\<close>

theorem full_log_queue_starves_telemetry:
  assumes "mq_fault (log_mq qs) = None" "length (mq_msgs (log_mq qs)) \<ge> mq_maxmsg (log_mq qs)"
    and "accepts (telemetry_mq qs)"
  shows "(is_data fr \<longrightarrow> forwardFrame (Some fr) qs = (-1, qs)) \<and>
    (\<not> is_data fr \<longrightarrow> fst (forwardFrame (Some fr) qs) = 0 \<and>
      telemetry_accepted (snd (forwardFrame (Some fr) qs)) = telemetry_accepted qs @ [fr])"
  using assms by (simp add: forwardFrame_cases accepts_def)

definition full_log_queues :: proc_queues where
  "full_log_queues =
     no_frames\<lparr>log_mq := proc_tx_attr\<lparr>mq_msgs := replicate 10 (3, 80, zero_sensor)\<rparr>\<rparr>"

theorem full_log_queue_starves_telemetry_witness:
  "forwardFrame (Some (zero_sensor\<lparr>s_frame_type := SENSOR_DATA\<rparr>)) full_log_queues =
     (-1, full_log_queues) \<and>
   telemetry_accepted (snd (forwardFrame (Some zero_sensor) full_log_queues)) = [zero_sensor]"
proof -
  have h: "mq_fault (log_mq full_log_queues) = None"
    "length (mq_msgs (log_mq full_log_queues)) \<ge> mq_maxmsg (log_mq full_log_queues)"
    "accepts (telemetry_mq full_log_queues)"
    by (simp_all add: full_log_queues_def no_frames_def proc_tx_attr_def accepts_def)
  show ?thesis
    using full_log_queue_starves_telemetry [OF h, of "zero_sensor\<lparr>s_frame_type := SENSOR_DATA\<rparr>"]
      full_log_queue_starves_telemetry [OF h, of zero_sensor]
    by (simp add: zero_sensor_def full_log_queues_def no_frames_def)
qed

interpretation frame_queue: bounded_fifo
  "send_accepts MQ_PRIORITY (\<lambda>fr :: Sensor_t. sizeof_Sensor_t)" "receive_next sizeof_Sensor_t"
  queue_contents mq_maxmsg "uniform_queue MQ_PRIORITY sizeof_Sensor_t"
  by (rule bounded_fifo_mqueue) simp



text \<open>
  C34: Resource safety of the processing daemon: whenever \<open>main\<close> returns, on every error path of
  the start-up and after the loop, each queue descriptor it opened has been closed exactly once.
\<close>

theorem proc_main_releases_everything:
  assumes "proc_main ini ipc w buffer evs p qs = (Return v, qs', acts)"
  shows "held [] acts = Some []"
  using assms
  by (auto simp: proc_main_def proc_ipc_init_def mq_name_defs Let_def held_append
      split: prod.splits init_outcome.splits io.splits if_splits option.splits)

definition example_world :: proc_world where
  "example_world = \<lparr>clocks = (\<lambda>k. (Some \<lparr>tv_sec = 1000 + int k, tv_nsec = 0\<rparr>,
     Some \<lparr>tv_sec = int k, tv_nsec = 5\<rparr>)), takes = (\<lambda>k. (1, 1))\<rparr>"

theorem proc_main_releases_everything_witness:
  "held [] (snd (snd (proc_main example_init
     \<lparr>pi_rx_open = True, pi_getattr = Some 18, pi_log_open = True, pi_telemetry_open = True\<rparr>
     example_world (replicate 18 0) [MqIntr SIGTERM] example_process no_frames))) = Some []"
proof -
  let ?ipc = "\<lparr>pi_rx_open = True, pi_getattr = Some 18, pi_log_open = True,
    pi_telemetry_open = True\<rparr>"
  obtain qs acts where "proc_main example_init ?ipc example_world (replicate 18 0)
      [MqIntr SIGTERM] example_process no_frames = (Return (Ret 0), qs, acts)"
    by (simp add: proc_main_def example_init_def daemon_init_def signals_init_def proc_ipc_init_def
        proc_size_defs proc_loop.simps)
  with proc_main_releases_everything [OF this] show ?thesis by simp
qed

end
