(* ===== verification/Pipeline.thy ===== *)
theory Pipeline
  imports Client_Sensors Processing
begin

text \<open>
  The path of a reading: a line of the simulator's data file, a packet on the wire, a stream in
  arbitrary chunks, a packet in the acquisition queue, a frame for logging and telemetry.
\<close>

section \<open>Readings\<close>

text \<open>A reading of a sensor: its data, or none for a heartbeat.\<close>

record reading =
  r_type :: SensorType_e
  r_id :: u16
  r_data :: "SensorData_u option"

definition reading_bytes :: "reading \<Rightarrow> byte list" where
  "reading_bytes r = (case r_data r of None \<Rightarrow> [] | Some d \<Rightarrow> encode_data (r_type r) d)"

definition reading_line :: "reading \<Rightarrow> string" where
  "reading_line r = render_line (type_byte (r_type r)) (r_id r) (reading_bytes r)"

definition reading_packet :: "reading \<Rightarrow> byte list" where
  "reading_packet r = build_packet (type_byte (r_type r)) (r_id r) (reading_bytes r)
     (of_nat (length (reading_bytes r)))"

definition reading_frame :: "sensor_timespec_t \<Rightarrow> sensor_timespec_t \<Rightarrow> reading \<Rightarrow> Sensor_t" where
  "reading_frame rt mt r =
     \<lparr>s_data = (case r_data r of None \<Rightarrow> zero_data | Some d \<Rightarrow> merge_data (r_type r) zero_data d),
      s_timestamp = rt, s_last_seen_time = mt, s_id = r_id r,
      s_name = the (name_base (r_type r)) @ ''_0X'' @ show_base 16 (unat (r_id r)),
      s_type = r_type r, s_state = SENSOR_FRAME_DEFAULT,
      s_frame_type = (if r_data r = None then SENSOR_HEARTBEAT else SENSOR_DATA)\<rparr>"

lemma reading_bytes_length: "length (reading_bytes r) \<le> MAX_DATA_SIZE"
  using data_len_bound by (simp add: reading_bytes_def MAX_DATA_SIZE_def split: option.split)

lemma reading_packet_wf [simp]: "well_formed_packet (reading_packet r)"
  unfolding reading_packet_def by (rule build_packet_wf [OF reading_bytes_length])

lemma reading_packet_of_line: "line_packet (client_line (reading_line r)) = Some (reading_packet r)"
  by (simp add: reading_line_def client_line_render [OF reading_bytes_length] line_packet_def
      reading_packet_def)

lemma reading_packet_eq:
  "reading_packet r =
     [SYNC_BYTE, type_byte (r_type r), ucast (r_id r), ucast (drop_bit 8 (r_id r)),
      ucast (of_nat (length (reading_bytes r)) :: u16),
      ucast (drop_bit 8 (of_nat (length (reading_bytes r)) :: u16))] @ reading_bytes r"
  unfolding reading_packet_def by (rule build_packet_simps [OF reading_bytes_length])

lemma length_reading_packet: "length (reading_packet r) = 6 + length (reading_bytes r)"
  by (simp add: reading_packet_eq)

lemma packet_ok_reading:
  assumes "supported (r_type r)"
  shows "packet_ok (reading_packet r @ junk) (length (reading_packet r))"
  using assms reading_bytes_length [of r]
  by (auto simp: packet_ok_def reading_packet_eq proc_size_defs proc_SYNC_FIELD_def SYNC_BYTE_def
      MAX_DATA_SIZE_def reading_bytes_def split: option.splits)

lemma packet_frame_reading:
  assumes "supported (r_type r)"
  shows "packet_frame (reading_packet r @ junk) (length (reading_packet r)) rt mt =
    reading_frame rt mt r"
proof -
  obtain base where base: "name_base (r_type r) = Some base"
    using assms by (auto simp: supported_def)
  show ?thesis
  proof (cases "r_data r")
    case None
    then show ?thesis
      using assms base by (simp add: packet_frame_def reading_frame_def reading_packet_eq
          reading_bytes_def proc_size_defs nameSensor_full)
  next
    case (Some d)
    then show ?thesis
      using assms base by (simp add: packet_frame_def reading_frame_def reading_packet_eq
          reading_bytes_def proc_size_defs nameSensor_full)
  qed
qed

lemma generateFrame_reading:
  "supported (r_type r) \<Longrightarrow>
   generateFrame (Some (reading_packet r @ junk)) (Some zero_sensor) (length (reading_packet r))
     (Some rt) (Some mt) = Some (reading_frame rt mt r)"
  by (simp add: generateFrame_eq packet_ok_reading packet_frame_reading)

section \<open>The processing loop on a sequence of readings\<close>

text \<open>Clocks that do not fail, and readers that take at least one message per iteration.\<close>

definition keeps_up :: "proc_world \<Rightarrow> bool" where
  "keeps_up w \<longleftrightarrow> (\<forall>k. fst (clocks w k) \<noteq> None \<and> snd (clocks w k) \<noteq> None \<and>
     1 \<le> fst (takes w k) \<and> 1 \<le> snd (takes w k))"

fun frames_from :: "proc_world \<Rightarrow> nat \<Rightarrow> reading list \<Rightarrow> Sensor_t list" where
  "frames_from w k [] = []"
| "frames_from w k (r # rs) =
     reading_frame (the (fst (clocks w k))) (the (snd (clocks w k))) r # frames_from w (Suc k) rs"

definition roomy :: "Sensor_t mqueue \<Rightarrow> bool" where
  "roomy q \<longleftrightarrow> mq_fault q = None \<and> mq_msgsize q = sizeof_Sensor_t \<and> mq_maxmsg q = 10 \<and>
     length (mq_msgs q) \<le> 1"

lemma roomy_take: "roomy q \<Longrightarrow> 1 \<le> n \<Longrightarrow> accepts (q\<lparr>mq_msgs := drop n (mq_msgs q)\<rparr>)"
  by (simp add: roomy_def accepts_def)

lemma length_insert_message [simp]: "length (insert_message x ys) = Suc (length ys)"
  by (induction ys) auto

lemma roomy_enqueue:
  "roomy q \<Longrightarrow> 1 \<le> n \<Longrightarrow> roomy (enqueue fr (q\<lparr>mq_msgs := drop n (mq_msgs q)\<rparr>))"
  by (simp add: roomy_def enqueue_def)

lemma roomy_drop: "roomy q \<Longrightarrow> roomy (q\<lparr>mq_msgs := drop n (mq_msgs q)\<rparr>)"
  by (auto simp: roomy_def)

definition messages :: "reading list \<Rightarrow> mq_rx_event list" where
  "messages rs = map (\<lambda>r. MqMessage (reading_packet r)) rs"

lemma messages_simps [simp]:
  "messages [] = []" "messages (r # rs) = MqMessage (reading_packet r) # messages rs"
  by (simp_all add: messages_def)

lemma proc_loop_readings:
  assumes "keeps_up w" "\<And>r. r \<in> set rs \<Longrightarrow> supported (r_type r)"
    and "roomy (log_mq qs)" "roomy (telemetry_mq qs)"
  shows "telemetry_accepted (snd (proc_loop w k buffer False (messages rs) qs)) =
      telemetry_accepted qs @ frames_from w k rs \<and>
    log_accepted (snd (proc_loop w k buffer False (messages rs) qs)) =
      log_accepted qs @ filter is_data (frames_from w k rs)"
  using assms(2-)
proof (induction rs arbitrary: k buffer qs)
  case Nil
  then show ?case by (simp add: proc_loop.simps)
next
  case (Cons r rs)
  let ?p = "reading_packet r"
  obtain rt mt where clk: "fst (clocks w k) = Some rt" "snd (clocks w k) = Some mt"
    using assms(1) unfolding keeps_up_def by (metis not_None_eq)
  have tk: "1 \<le> fst (takes w k)" "1 \<le> snd (takes w k)"
    using assms(1) by (auto simp: keeps_up_def)
  have "length ?p \<le> 18" "6 \<le> length ?p"
    using reading_bytes_length [of r] by (simp_all add: length_reading_packet MAX_DATA_SIZE_def)
  then have rp: "receivePacket buffer False (messages (r # rs)) =
      (Return (int (length ?p)), ?p @ drop (length ?p) buffer, False,
       messages rs)"
    by (simp add: proc_size_defs Let_def)
  define fr where "fr = reading_frame rt mt r"
  define qs1 where "qs1 = snd (forwardFrame (Some fr) (readers w k qs))"
  have acc: "accepts (log_mq (readers w k qs))" "accepts (telemetry_mq (readers w k qs))"
    using Cons.prems(2,3) tk by (simp_all add: readers_def roomy_take)
  have qs1: "telemetry_accepted qs1 = telemetry_accepted qs @ [fr]"
    "log_accepted qs1 = log_accepted qs @ filter is_data [fr]"
    "roomy (log_mq qs1)" "roomy (telemetry_mq qs1)"
    using acc Cons.prems(2,3) tk
    by (auto simp: qs1_def forwardFrame_cases readers_def roomy_enqueue roomy_drop)
  have "proc_loop w k buffer False (messages (r # rs)) qs =
      proc_loop w (Suc k) (?p @ drop (length ?p) buffer) False
        (messages rs) qs1"
    using Cons.prems(1) clk
    by (subst proc_loop_step [OF rp]) (simp add: generateFrame_reading fr_def qs1_def)
  with Cons.IH [OF Cons.prems(1) qs1(3,4)] qs1(1,2) show ?case
    by (simp add: clk fr_def)
qed

section \<open>End to end\<close>

lemma file_packets_readings: "file_packets (map reading_line rs) = map reading_packet rs"
  by (induction rs) (simp_all add: file_packets_def map_filter_simps reading_packet_of_line)

lemma readings_through:
  assumes "\<And>r. r \<in> set rs \<Longrightarrow> supported (r_type r)"
    and "client_pass (map reading_line rs) evs = (Return 0, wire_bytes, evs')"
    and "concat chunks = wire_bytes" "length rs \<le> n" "keeps_up w"
  shows "\<exists>c. acq_socketConnectionHandler (fresh_conn chunks n) = (Return Disconnected, c) \<and>
    (let qs = snd (proc_loop w 0 buffer False (map MqMessage (ac_forwarded c)) no_frames) in
       telemetry_accepted qs = frames_from w 0 rs \<and>
       log_accepted qs = filter is_data (frames_from w 0 rs))"
proof -
  have "concat chunks = concat (map reading_packet rs)"
    using client_pass_sends [OF assms(2)] assms(3) by (simp add: file_packets_readings)
  moreover have "split_packets (concat (map reading_packet rs)) = (map reading_packet rs, Disconnected)"
    by (rule split_packets_wf) auto
  ultimately have split: "split_packets (concat chunks) = (map reading_packet rs, Disconnected)"
    by simp
  with handler_orderly [of "fresh_conn chunks n" n] assms(4) obtain c where
    c: "acq_socketConnectionHandler (fresh_conn chunks n) = (Return Disconnected, c)"
    "ac_forwarded c = map reading_packet rs"
    by (auto simp: fresh_conn_def rx_orderly_def rx_stream_def)
  have "roomy proc_tx_attr" by (simp add: roomy_def proc_tx_attr_def)
  with proc_loop_readings [OF assms(5,1), where qs = no_frames and k = 0 and buffer = buffer] c
  show ?thesis by (simp add: no_frames_def messages_def comp_def)
qed

text \<open>
  C5: From the sensor to the frame. A client works through a file with one line per reading; what
  it puts on the wire arrives at the acquisition daemon in any chunks; the daemon's packets go
  through the processing loop. Then the connection ends with the client's close, and the telemetry
  queue has received, in order, one frame per reading with its id, type, name, data and kind and
  the clock values of its iteration; the logging queue has received the data frames among them.
\<close>

theorem readings_reach_telemetry:
  assumes "\<And>r. r \<in> set rs \<Longrightarrow> supported (r_type r)"
    and "client_pass (map reading_line rs) evs = (Return 0, wire_bytes, evs')"
    and "concat chunks = wire_bytes" "length rs \<le> n" "keeps_up w"
  shows "\<exists>c. acq_socketConnectionHandler (fresh_conn chunks n) = (Return Disconnected, c) \<and>
    (let qs = snd (proc_loop w 0 buffer False (map MqMessage (ac_forwarded c)) no_frames) in
       telemetry_accepted qs = frames_from w 0 rs \<and>
       log_accepted qs = filter is_data (frames_from w 0 rs))"
  using assms by (rule readings_through)

definition example_readings :: "reading list" where
  "example_readings =
     [\<lparr>r_type = SENSOR_TYPE_TORQUE, r_id = 300, r_data = Some \<lparr>word0 = 95, word4 = 0, word8 = 0\<rparr>\<rparr>,
      \<lparr>r_type = SENSOR_TYPE_PROXIMITY, r_id = 400, r_data = None\<rparr>]"

lemma example_pass:
  "client_pass (map reading_line example_readings) [Sent 18, Sent 18] =
     (Return 0, concat (map reading_packet example_readings), [])"
proof -
  have send: "client_send_all p [Sent 18, Sent 18] = (Return 0, p, [Sent 18])"
    "client_send_all p [Sent 18] = (Return 0, p, [])" if "length p \<le> 18" "p \<noteq> []" for p :: "byte list"
    using that by (simp_all add: client_send_all_def client_send_all_loop.simps)
  have small: "length (reading_packet r) \<le> 18 \<and> reading_packet r \<noteq> []" for r
    using reading_bytes_length [of r] by (auto simp: reading_packet_eq MAX_DATA_SIZE_def)
  show ?thesis
    by (simp add: example_readings_def reading_packet_of_line send small)
qed

theorem readings_reach_telemetry_witness:
  "\<exists>c. acq_socketConnectionHandler (fresh_conn [concat (map reading_packet example_readings)] 2) =
      (Return Disconnected, c) \<and>
    (let qs = snd (proc_loop example_world 0 [] False (map MqMessage (ac_forwarded c)) no_frames) in
       telemetry_accepted qs = frames_from example_world 0 example_readings \<and>
       length (log_accepted qs) = 1)"
proof -
  have sup: "\<And>r. r \<in> set example_readings \<Longrightarrow> supported (r_type r)"
    by (auto simp: example_readings_def)
  have "keeps_up example_world" by (simp add: keeps_up_def example_world_def)
  from readings_reach_telemetry [OF sup example_pass _ _ this,
      of "[concat (map reading_packet example_readings)]" 2 "[]"]
  show ?thesis
    by (auto simp: Let_def) (auto simp: example_readings_def reading_frame_def)
qed

end
