(* ===== verification/C_Double.thy ===== *)
theory C_Double
  imports Complex_Main Prelude "HOL-Library.Log_Nat"
begin

text \<open>
  IEEE 754 binary64 arithmetic as the gateway uses it. A double is its rational value; every
  operation is the exact result rounded to 53 bits, to nearest with ties to even (\<open>fl\<close>). All
  values that occur are zero or lie between \<open>10\<^sup>-\<^sup>9\<close> and \<open>2\<^sup>8\<^sup>0\<close>, so neither
  overflow nor subnormal numbers arise. \<open>show_fixed p\<close> is the conversion \<open>%.pf\<close>, which rounds
  the exact value of the double to \<open>p\<close> decimals, ties to even.
\<close>

definition round_even :: "rat \<Rightarrow> int" where
  "round_even x =
     (let f = \<lfloor>x\<rfloor>; r = x - of_int f
      in if r < 1/2 then f else if r > 1/2 then f + 1 else if even f then f else f + 1)"

text \<open>The binary exponent: \<open>2 powi e \<le> \<bar>x\<bar> < 2 powi (e + 1)\<close>.\<close>

definition rat_exp :: "rat \<Rightarrow> int" where
  "rat_exp x =
     (let (n, d) = quotient_of \<bar>x\<bar>; k = bitlen n - bitlen d
      in if 2 powi k \<le> \<bar>x\<bar> then k else k - 1)"

definition fl :: "rat \<Rightarrow> rat" where
  "fl x = (if x = 0 then 0
     else let u = 2 powi (rat_exp x - 52) in of_int (round_even (x / u)) * u)"

definition show_fixed :: "nat \<Rightarrow> rat \<Rightarrow> string" where
  "show_fixed p x =
     (let n = nat (round_even (\<bar>x\<bar> * 10 ^ p))
      in (if x < 0 then ''-'' else []) @ show_base 10 (n div 10 ^ p) @ ''.'' @
         pad_left p (CHR ''0'') (show_base 10 (n mod 10 ^ p)))"

section \<open>Rounding\<close>

lemma round_even_error: "\<bar>of_int (round_even x) - x\<bar> \<le> 1/2"
proof -
  have "of_int \<lfloor>x\<rfloor> \<le> x" "x < of_int \<lfloor>x\<rfloor> + 1" by linarith+
  then show ?thesis
    unfolding round_even_def Let_def by (auto simp: abs_le_iff)
qed

lemma round_even_near:
  assumes "\<bar>x - of_int n\<bar> < 1/2"
  shows "round_even x = n"
proof -
  have "\<bar>of_int (round_even x) - of_int n :: rat\<bar> < 1"
    using round_even_error [of x] assms by linarith
  then have "of_int \<bar>round_even x - n\<bar> < (of_int 1 :: rat)" by simp
  then show ?thesis unfolding of_int_less_iff by simp
qed

lemma round_even_of_int [simp]: "round_even (of_int n) = n"
  by (rule round_even_near) simp

lemma round_even_ge: "of_int n \<le> x \<Longrightarrow> n \<le> round_even x"
proof -
  assume "of_int n \<le> x"
  then have "n \<le> \<lfloor>x\<rfloor>" by (simp add: le_floor_iff)
  then show ?thesis unfolding round_even_def Let_def by (auto split: if_splits)
qed

section \<open>The exponent\<close>

lemma bitlen_powi:
  assumes "0 < n"
  shows "2 powi (bitlen n - 1) \<le> (of_int n :: rat)" "(of_int n :: rat) < 2 powi (bitlen n)"
proof -
  have pos: "0 < bitlen n"
    using assms bitlen_eq_zero_iff [of n] bitlen_nonneg [of n] by linarith
  have *: "2 ^ nat (bitlen n - 1) \<le> n" "n < 2 ^ nat (bitlen n)"
    using bitlen_bounds [OF assms] by auto
  from *(1) have "of_int (2 ^ nat (bitlen n - 1)) \<le> (of_int n :: rat)" by (simp only: of_int_le_iff)
  with pos show "2 powi (bitlen n - 1) \<le> (of_int n :: rat)"
    by (simp add: power_int_def)
  from *(2) have "(of_int n :: rat) < of_int (2 ^ nat (bitlen n))" by (simp only: of_int_less_iff)
  with pos show "(of_int n :: rat) < 2 powi (bitlen n)"
    by (simp add: power_int_def)
qed

lemma rat_exp_bounds:
  assumes "x \<noteq> 0"
  shows "2 powi (rat_exp x) \<le> \<bar>x\<bar>" "\<bar>x\<bar> < 2 powi (rat_exp x + 1)"
proof -
  obtain n d where q: "quotient_of \<bar>x\<bar> = (n, d)" by fastforce
  have d: "0 < d" using quotient_of_denom_pos [OF q] .
  have eq: "\<bar>x\<bar> = of_int n / of_int d" using quotient_of_div [OF q] .
  have "0 < (of_int n / of_int d :: rat)" using assms eq by (metis zero_less_abs_iff)
  with d have n: "0 < n" by (simp add: zero_less_divide_iff)
  define k where "k = bitlen n - bitlen d"
  have "2 powi (bitlen n - 1) / 2 powi (bitlen d) < (of_int n / of_int d :: rat)"
    using bitlen_powi [OF n] bitlen_powi [OF d] d by (intro frac_less2) auto
  then have lo: "2 powi (k - 1) < \<bar>x\<bar>"
    by (simp add: eq k_def algebra_simps flip: power_int_diff)
  have "(of_int n / of_int d :: rat) < 2 powi (bitlen n) / 2 powi (bitlen d - 1)"
    using bitlen_powi [OF n] bitlen_powi [OF d] n by (intro frac_less) auto
  then have hi: "\<bar>x\<bar> < 2 powi (k + 1)"
    by (simp add: eq k_def algebra_simps flip: power_int_diff)
  show "2 powi (rat_exp x) \<le> \<bar>x\<bar>" "\<bar>x\<bar> < 2 powi (rat_exp x + 1)"
    using lo hi by (auto simp: rat_exp_def q k_def Let_def)
qed

section \<open>Rounding to a double\<close>

lemma fl_0 [simp]: "fl 0 = 0"
  by (simp add: fl_def)

lemma fl_error: "\<bar>fl x - x\<bar> \<le> \<bar>x\<bar> / 2 ^ 53"
proof (cases "x = 0")
  case False
  define u :: rat where "u = 2 powi (rat_exp x - 52)"
  have u: "0 < u" by (simp add: u_def)
  have "\<bar>fl x - x\<bar> = \<bar>of_int (round_even (x / u)) - x / u\<bar> * u"
    using False u by (simp add: fl_def u_def [symmetric] abs_mult_pos field_simps abs_minus_commute)
  also have "\<dots> \<le> 1/2 * u"
    using round_even_error u by (intro mult_right_mono) auto
  also have "1/2 * u = 2 powi (rat_exp x) / 2 ^ 53"
    by (simp add: u_def power_int_diff)
  also have "\<dots> \<le> \<bar>x\<bar> / 2 ^ 53"
    using rat_exp_bounds(1) [OF False] by (intro divide_right_mono) auto
  finally show ?thesis .
qed simp

lemma rat_exp_less:
  assumes "x \<noteq> 0" "\<bar>x\<bar> < 2 ^ k"
  shows "rat_exp x < int k"
proof (rule ccontr)
  assume "\<not> rat_exp x < int k"
  then have "2 powi (int k) \<le> (2 powi (rat_exp x) :: rat)"
    by (intro power_int_increasing) auto
  with rat_exp_bounds(1) [OF assms(1)] assms(2) show False
    by (simp add: power_int_of_nat)
qed

text \<open>Below \<open>2\<^sup>5\<^sup>3\<close> the unit in the last place divides 1, so integers are exact.\<close>

lemma small_ulp:
  assumes "x \<noteq> 0" "\<bar>x\<bar> < 2 ^ 53"
  obtains j where "2 powi (rat_exp x - 52) = (1 / 2 ^ j :: rat)"
proof -
  have "rat_exp x < 53" using rat_exp_less [OF assms] by simp
  then have "rat_exp x - 52 = - int (nat (52 - rat_exp x))" by simp
  then show thesis
    using that by (metis power_int_minus_left power_int_of_nat power_int_minus inverse_eq_divide)
qed

lemma fl_of_int:
  assumes "\<bar>n\<bar> < 2 ^ 53"
  shows "fl (of_int n) = of_int n"
proof (cases "n = 0")
  case False
  have "\<bar>of_int n :: rat\<bar> = of_int \<bar>n\<bar>" by simp
  also have "\<dots> < of_int (2 ^ 53)" using assms by (simp only: of_int_less_iff)
  finally have "\<bar>of_int n :: rat\<bar> < 2 ^ 53" by simp
  with False obtain j where j: "2 powi (rat_exp (of_int n) - 52) = (1 / 2 ^ j :: rat)"
    using small_ulp [of "of_int n"] by auto
  have "round_even (of_int n / (1 / 2 ^ j)) = n * 2 ^ j"
    using round_even_of_int [of "n * 2 ^ j"] by simp
  then show ?thesis using False by (simp add: fl_def j Let_def)
qed simp

text \<open>Rounding does not fall below an integer bound.\<close>

lemma fl_ge_int:
  assumes "0 < c" "c < 2 ^ 53" "of_int c \<le> x"
  shows "of_int c \<le> fl x"
proof (cases "x < 2 ^ 53")
  case True
  have x: "0 < x" using assms(1,3) by (metis of_int_0_less_iff order_less_le_trans)
  then obtain j where j: "2 powi (rat_exp x - 52) = (1 / 2 ^ j :: rat)"
    using small_ulp [of x] True by auto
  have "of_int (c * 2 ^ j) \<le> x * 2 ^ j" using assms(3) by simp
  then have "c * 2 ^ j \<le> round_even (x * 2 ^ j)" by (rule round_even_ge)
  then have "of_int (c * 2 ^ j) \<le> (of_int (round_even (x * 2 ^ j)) :: rat)"
    by (simp only: of_int_le_iff)
  then show ?thesis using x by (simp add: fl_def j Let_def field_simps)
next
  case False
  then have "x * (1 - 1 / 2 ^ 53) \<ge> 2 ^ 53 * (1 - 1 / 2 ^ 53)" by (intro mult_right_mono) auto
  moreover have "fl x \<ge> x - x / 2 ^ 53"
    using abs_le_D2 [OF fl_error [of x]] False by simp
  moreover have "of_int c \<le> (2 ^ 53 - 1 :: rat)"
    using assms(2) by (metis (mono_tags) of_int_1 of_int_diff of_int_le_iff of_int_numeral
        of_int_power zle_diff1_eq)
  ultimately show ?thesis by (simp add: algebra_simps)
qed

lemma fl_sign: "fl x < 0 \<longleftrightarrow> x < 0"
proof -
  note err = abs_le_D1 [OF fl_error [of x]] abs_le_D2 [OF fl_error [of x]]
  show ?thesis
  proof (cases "x < 0")
    case True
    then have "fl x \<le> x * (1 - 1 / 2 ^ 53)" using err(1) by (simp add: algebra_simps)
    moreover have "x * (1 - 1 / 2 ^ 53) < 0" using True by (simp add: mult_less_0_iff)
    ultimately show ?thesis using True by simp
  next
    case False
    then have "x * (1 - 1 / 2 ^ 53) \<le> fl x" using err(2) by (simp add: algebra_simps)
    moreover have "0 \<le> x * (1 - 1 / 2 ^ 53)" using False by (simp add: zero_le_mult_iff)
    ultimately show ?thesis using False by simp
  qed
qed

section \<open>Decimal fractions survive the round trip through a double\<close>

text \<open>The decimal notation of \<open>v / s\<close> with six decimals, for a divisor \<open>s\<close> of \<open>10\<^sup>6\<close>.\<close>

definition decimal_fraction :: "int \<Rightarrow> nat \<Rightarrow> string" where
  "decimal_fraction v s =
     (let a = nat \<bar>v\<bar> in
      (if v < 0 then ''-'' else []) @ show_base 10 (a div s) @ ''.'' @
      pad_left 6 (CHR ''0'') (show_base 10 (a mod s * (10 ^ 6 div s))))"

lemma show_fixed_fl_quotient:
  assumes "\<bar>v\<bar> \<le> 2 ^ 31" "s * q = 10 ^ 6" "0 < s"
  shows "show_fixed 6 (fl (of_int v / of_nat s)) = decimal_fraction v s"
proof -
  define x :: rat where "x = of_int v / of_nat s"
  define a where "a = nat \<bar>v\<bar>"
  have abs_x: "\<bar>x\<bar> = of_nat a / of_nat s" by (simp add: x_def a_def)
  have scaled: "\<bar>x\<bar> * 10 ^ 6 = of_nat (a * q)"
  proof -
    have "(of_nat (s * q) :: rat) = 10 ^ 6" by (simp add: assms(2))
    then show ?thesis using assms(3) by (simp add: abs_x field_simps)
  qed
  have "a \<le> 2 ^ 31 * s" using assms(1,3) by (cases s) (simp_all add: a_def nat_le_iff)
  then have "of_nat a \<le> (of_nat (2 ^ 31 * s) :: rat)" by (simp only: of_nat_le_iff)
  then have "\<bar>x\<bar> \<le> 2 ^ 31" using assms(3) by (simp add: abs_x divide_le_eq)
  then have "\<bar>x\<bar> / 2 ^ 53 * 10 ^ 6 < 1/2" by simp
  moreover have "\<bar>\<bar>fl x\<bar> - \<bar>x\<bar>\<bar> * 10 ^ 6 \<le> \<bar>x\<bar> / 2 ^ 53 * 10 ^ 6"
    using fl_error [of x] abs_triangle_ineq3 [of "fl x" x] by (intro mult_right_mono) (linarith, simp)
  moreover have "\<bar>\<bar>fl x\<bar> * 10 ^ 6 - \<bar>x\<bar> * 10 ^ 6\<bar> = \<bar>\<bar>fl x\<bar> - \<bar>x\<bar>\<bar> * 10 ^ 6"
    unfolding left_diff_distrib [symmetric] by (rule abs_mult_pos [symmetric]) simp
  ultimately have "\<bar>\<bar>fl x\<bar> * 10 ^ 6 - of_nat (a * q)\<bar> < 1/2"
    unfolding scaled by linarith
  then have n: "round_even (\<bar>fl x\<bar> * 10 ^ 6) = int (a * q)"
    by (intro round_even_near) simp
  have div: "a * q div 10 ^ 6 = a div s" and md: "a * q mod 10 ^ 6 = a mod s * q"
    using assms(2,3) by (metis div_mult_mult2 mult_eq_0_iff power_not_zero zero_neq_numeral,
        metis mult_mod_right mult.commute)
  have "10 ^ 6 div s = q" using assms(2,3) by (metis nonzero_mult_div_cancel_left not_less_zero)
  moreover have "fl x < 0 \<longleftrightarrow> v < 0"
    using assms(3) by (simp add: fl_sign x_def divide_less_0_iff)
  ultimately show ?thesis
    unfolding show_fixed_def decimal_fraction_def Let_def x_def [symmetric] a_def [symmetric] n
      nat_int div md by simp
qed

section \<open>Seconds between two clock readings\<close>

text \<open>
  \<open>(long) ds + (long) dn / 1000000000.0\<close>: both operands are converted, divided and added in
  double precision.
\<close>

definition seconds_between :: "int \<Rightarrow> int \<Rightarrow> rat" where
  "seconds_between ds dn = fl (fl (of_int ds) + fl (fl (of_int dn) / 10 ^ 9))"

lemma seconds_between_threshold:
  assumes "\<bar>ds\<bar> < 2 ^ 53" "\<bar>dn\<bar> < 10 ^ 9" "0 < c" "c \<le> 2 ^ 20"
  shows "of_int c \<le> seconds_between ds dn \<longleftrightarrow> c * 10 ^ 9 \<le> ds * 10 ^ 9 + dn"
proof -
  define b where "b = fl (of_int dn / 10 ^ 9)"
  define x where "x = of_int ds + b"
  have eq: "seconds_between ds dn = fl x"
    using assms(1,2) by (simp add: seconds_between_def x_def b_def fl_of_int)
  have "of_int \<bar>dn\<bar> \<le> (of_int (10 ^ 9 - 1) :: rat)"
    using assms(2) by (simp only: of_int_le_iff)
  then have dn: "\<bar>of_int dn / 10 ^ 9 :: rat\<bar> \<le> 1 - 1 / 10 ^ 9" by simp
  then have b_err: "\<bar>b - of_int dn / 10 ^ 9\<bar> \<le> 1 / 2 ^ 53"
    using fl_error [of "of_int dn / 10 ^ 9"] unfolding b_def by (simp add: field_simps)
  have c53: "c < 2 ^ 53" using assms(4) by simp
  show ?thesis
  proof
    assume "c * 10 ^ 9 \<le> ds * 10 ^ 9 + dn"
    with assms(2) have "c < ds + 1" and "ds = c \<longrightarrow> 0 \<le> dn" by simp_all
    then consider "ds = c" "0 \<le> dn" | "c + 1 \<le> ds" by linarith
    then have "of_int c \<le> x"
    proof cases
      case 1
      then have "\<not> b < 0" by (simp add: b_def fl_sign divide_less_0_iff)
      with 1 show ?thesis by (simp add: x_def)
    next
      case 2
      then have "of_int c + 1 \<le> (of_int ds :: rat)" by (metis of_int_1 of_int_add of_int_le_iff)
      with abs_le_D2 [OF b_err] abs_le_D2 [OF dn] show ?thesis by (simp add: x_def)
    qed
    with assms(3) c53 show "of_int c \<le> seconds_between ds dn"
      unfolding eq by (intro fl_ge_int) auto
  next
    assume le: "of_int c \<le> seconds_between ds dn"
    show "c * 10 ^ 9 \<le> ds * 10 ^ 9 + dn"
    proof (rule ccontr)
      assume "\<not> c * 10 ^ 9 \<le> ds * 10 ^ 9 + dn"
      then have "of_int (ds * 10 ^ 9 + dn) \<le> (of_int (c * 10 ^ 9 - 1) :: rat)"
        by (simp only: of_int_le_iff)
      then have "of_int ds + of_int dn / 10 ^ 9 \<le> (of_int c - 1 / 10 ^ 9 :: rat)"
        by (simp add: field_simps)
      with abs_le_D1 [OF b_err] have x: "x \<le> of_int c - 1 / 10 ^ 9 + 1 / 2 ^ 53"
        by (simp add: x_def)
      have c20: "(of_int c :: rat) \<le> 2 ^ 20"
        using assms(4) by (metis of_int_le_iff of_int_numeral of_int_power)
      have "fl x < of_int c"
      proof (cases "x < 0")
        case True
        then have "fl x < 0" by (simp add: fl_sign)
        also have "(0 :: rat) < of_int c" using assms(3) by simp
        finally show ?thesis .
      next
        case False
        then have "fl x \<le> x + x / 2 ^ 53" using abs_le_D1 [OF fl_error [of x]] by simp
        with x c20 show ?thesis by simp
      qed
      with le show False by (simp add: eq)
    qed
  qed
qed

section \<open>Accuracy of a chain of operations\<close>

text \<open>\<open>close n y x\<close>: \<open>y\<close> is \<open>x\<close> up to \<open>n\<close> roundings.\<close>

definition close :: "nat \<Rightarrow> rat \<Rightarrow> rat \<Rightarrow> bool" where
  "close n y x \<longleftrightarrow> \<bar>y - x\<bar> \<le> ((1 + 1 / 2 ^ 53) ^ n - 1) * \<bar>x\<bar>"

lemma close_self [simp]: "close 0 x x"
  by (simp add: close_def)

lemma close_fl: "close n y x \<Longrightarrow> close (Suc n) (fl y) x"
proof -
  assume "close n y x"
  define u :: rat where "u = 1 / 2 ^ 53"
  have u: "0 \<le> u" by (simp add: u_def)
  define p where "p = (1 + u) ^ n"
  have yx: "\<bar>y - x\<bar> \<le> (p - 1) * \<bar>x\<bar>" using \<open>close n y x\<close> by (simp add: close_def p_def u_def)
  have "\<bar>fl y - y\<bar> \<le> u * \<bar>y\<bar>" using fl_error [of y] by (simp add: u_def)
  also have "\<dots> \<le> u * (p * \<bar>x\<bar>)"
  proof (rule mult_left_mono [OF _ u])
    have "\<bar>y\<bar> \<le> \<bar>y - x\<bar> + \<bar>x\<bar>" by linarith
    with yx show "\<bar>y\<bar> \<le> p * \<bar>x\<bar>" by (simp add: algebra_simps)
  qed
  finally have "\<bar>fl y - x\<bar> \<le> u * (p * \<bar>x\<bar>) + (p - 1) * \<bar>x\<bar>" using yx by linarith
  also have "\<dots> = ((1 + u) ^ Suc n - 1) * \<bar>x\<bar>" by (simp add: p_def algebra_simps)
  finally show ?thesis by (simp add: close_def u_def)
qed

lemma close_scale:
  assumes "close n y x"
  shows "close n (y * c) (x * c)"
proof -
  have "\<bar>y * c - x * c\<bar> = \<bar>y - x\<bar> * \<bar>c\<bar>" by (simp add: abs_mult flip: left_diff_distrib)
  also have "\<dots> \<le> ((1 + 1 / 2 ^ 53) ^ n - 1) * \<bar>x\<bar> * \<bar>c\<bar>"
    using assms by (intro mult_right_mono) (simp_all add: close_def)
  finally show ?thesis by (simp add: close_def abs_mult mult.assoc)
qed

lemma close_divide: "close n y x \<Longrightarrow> close n (y / c) (x / c)"
  using close_scale [of n y x "1 / c"] by simp

lemma close_six: "close n y x \<Longrightarrow> n \<le> 6 \<Longrightarrow> \<bar>y - x\<bar> \<le> \<bar>x\<bar> / 2 ^ 50"
proof -
  assume "close n y x" "n \<le> 6"
  have "(1 + 1 / 2 ^ 53 :: rat) ^ n \<le> (1 + 1 / 2 ^ 53) ^ 6"
    using \<open>n \<le> 6\<close> by (intro power_increasing) simp_all
  also have "\<dots> \<le> 1 + 1 / 2 ^ 50" by (simp add: power_divide divide_le_eq)
  finally have "((1 + 1 / 2 ^ 53 :: rat) ^ n - 1) * \<bar>x\<bar> \<le> 1 / 2 ^ 50 * \<bar>x\<bar>"
    by (intro mult_right_mono) simp_all
  with \<open>close n y x\<close> show ?thesis by (simp add: close_def)
qed

end
