(* ===== verification/C_Time.thy ===== *)
theory C_Time
  imports Prelude
begin

text \<open>
  Broken-down time as \<open>localtime_r\<close> and \<open>strftime("%Y-%m-%d %H:%M:%S")\<close> of the C library
  produce it: the proleptic Gregorian calendar, shifted by the offset of the local time zone. The
  zone is configuration of the machine and a parameter \<open>tz\<close>, the offset in seconds as a
  function of the instant. \<open>timegm_gmtime\<close> shows that the calendar loses nothing: the
  broken-down time determines the instant.
\<close>

record tm =
  tm_year :: int
  tm_mon :: nat
  tm_mday :: nat
  tm_hour :: nat
  tm_min :: nat
  tm_sec :: nat

definition leap :: "int \<Rightarrow> bool" where
  "leap y \<longleftrightarrow> y mod 4 = 0 \<and> (y mod 100 \<noteq> 0 \<or> y mod 400 = 0)"

definition year_days :: "int \<Rightarrow> nat" where
  "year_days y = (if leap y then 366 else 365)"

definition month_days :: "int \<Rightarrow> nat list" where
  "month_days y = [31, if leap y then 29 else 28, 31, 30, 31, 30, 31, 31, 30, 31, 30, 31]"

function year_walk :: "int \<Rightarrow> nat \<Rightarrow> int \<times> nat" where
  "year_walk y d = (if d < year_days y then (y, d) else year_walk (y + 1) (d - year_days y))"
  by pat_completeness auto
termination
  by (relation "measure snd") (auto simp: year_days_def split: if_splits)

declare year_walk.simps [simp del]

fun month_walk :: "nat list \<Rightarrow> nat \<Rightarrow> nat \<times> nat" where
  "month_walk [] d = (0, d)"
| "month_walk (n # ns) d =
     (if d < n then (0, d) else let (m, r) = month_walk ns (d - n) in (Suc m, r))"

definition gmtime :: "int \<Rightarrow> tm" where
  "gmtime t =
     (let days = t div 86400; s = nat (t mod 86400);
          (y, doy) = year_walk (1970 + 400 * (days div 146097)) (nat (days mod 146097));
          (m, d) = month_walk (month_days y) doy
      in \<lparr>tm_year = y - 1900, tm_mon = m, tm_mday = Suc d,
          tm_hour = s div 3600, tm_min = s div 60 mod 60, tm_sec = s mod 60\<rparr>)"

text \<open>\<open>NULL\<close> (EOVERFLOW) when the year does not fit an \<open>int\<close>.\<close>

definition localtime_r :: "(int \<Rightarrow> int) \<Rightarrow> int \<Rightarrow> tm option" where
  "localtime_r tz t =
     (let info = gmtime (t + tz t)
      in if - (2 ^ 31) \<le> tm_year info \<and> tm_year info < 2 ^ 31 then Some info else None)"

definition two_digits :: "nat \<Rightarrow> string" where
  "two_digits n = pad_left 2 (CHR ''0'') (show_base 10 n)"

definition stamp_text :: "tm \<Rightarrow> string" where
  "stamp_text info =
     show_int (tm_year info + 1900) @ ''-'' @ two_digits (Suc (tm_mon info)) @ ''-'' @
     two_digits (tm_mday info) @ '' '' @ two_digits (tm_hour info) @ '':'' @
     two_digits (tm_min info) @ '':'' @ two_digits (tm_sec info)"

text \<open>\<open>None\<close> is the result 0: the text and its NUL do not fit.\<close>

definition strftime :: "nat \<Rightarrow> tm \<Rightarrow> string option" where
  "strftime maxsize info =
     (if length (stamp_text info) < maxsize then Some (stamp_text info) else None)"

section \<open>The calendar is exact\<close>

lemma sum_month_days: "sum_list (month_days y) = year_days y"
  by (simp add: month_days_def year_days_def)

lemma month_walk_sum:
  assumes "month_walk ns d = (m, r)" "d < sum_list ns"
  shows "m < length ns \<and> r < ns ! m \<and> sum_list (take m ns) + r = d"
  using assms by (induction ns d arbitrary: m r rule: month_walk.induct)
    (fastforce split: if_splits prod.splits)+

lemma year_walk_bound: "year_walk y d = (y', d') \<Longrightarrow> d' < year_days y'"
  by (induction y d rule: year_walk.induct) (subst (asm) (2) year_walk.simps, auto split: if_splits)

definition leaps_to :: "int \<Rightarrow> int" where
  "leaps_to y = y div 4 - y div 100 + y div 400"

definition days_to_year :: "int \<Rightarrow> int" where
  "days_to_year y = 365 * (y - 1970) + leaps_to (y - 1) - leaps_to 1969"

lemma div_step:
  assumes "0 < k"
  shows "(y :: int) div k = (y - 1) div k + (if y mod k = 0 then 1 else 0)"
proof (cases "y mod k = 0")
  case True
  have "(y - 1) div k = y div k - 1"
    using assms True
    by (intro int_div_pos_eq [where r = "k - 1"]) (auto simp: right_diff_distrib)
  with True show ?thesis by simp
next
  case False
  then have "0 < y mod k" using assms pos_mod_sign [of k y] by linarith
  then have "(y - 1) div k = y div k"
    using assms pos_mod_bound [of k y] mult_div_mod_eq [of k y]
    by (intro int_div_pos_eq [where r = "y mod k - 1"]) linarith+
  with False show ?thesis by simp
qed

lemma leaps_arith:
  fixes a4 b4 a100 b100 a400 b400 :: int
  assumes "a4 = b4 + (if p then 1 else 0)" "a100 = b100 + (if q then 1 else 0)"
    "a400 = b400 + (if r then 1 else 0)" "r \<Longrightarrow> q" "q \<Longrightarrow> p"
  shows "a4 - a100 + a400 = b4 - b100 + b400 + (if p \<and> (\<not> q \<or> r) then 1 else 0)"
  using assms by auto

lemma leaps_to_step: "leaps_to y = leaps_to (y - 1) + (if leap y then 1 else 0)"
proof -
  have dvd: "(100 :: int) dvd 400" "(4 :: int) dvd 100" by simp_all
  have mods: "y mod 400 = 0 \<Longrightarrow> y mod 100 = 0" "y mod 100 = 0 \<Longrightarrow> y mod 4 = 0"
    unfolding mod_eq_0_iff_dvd by - (erule dvd_trans [OF dvd(1)], erule dvd_trans [OF dvd(2)])
  have pos: "(0 :: int) < 4" "(0 :: int) < 100" "(0 :: int) < 400" by simp_all
  show ?thesis
    unfolding leaps_to_def leap_def
    by (rule leaps_arith [OF div_step [OF pos(1)] div_step [OF pos(2)] div_step [OF pos(3)] mods])
qed

lemma days_to_year_step: "days_to_year (y + 1) = days_to_year y + int (year_days y)"
  using leaps_to_step [of y] by (simp add: days_to_year_def year_days_def)

lemma days_to_year_cycle: "days_to_year (1970 + 400 * c) = 146097 * c"
proof -
  have "leaps_to (1969 + 400 * c) = leaps_to 1969 + 97 * c"
    using div_mult_self2 [of 400 "1969 :: int" c] div_mult_self2 [of 100 "1969 :: int" "4 * c"]
      div_mult_self2 [of 4 "1969 :: int" "100 * c"]
    by (simp add: leaps_to_def)
  then show ?thesis by (simp add: days_to_year_def add.commute)
qed

lemma year_walk_days:
  "year_walk y d = (y', d') \<Longrightarrow> days_to_year y' + int d' = days_to_year y + int d"
proof (induction y d rule: year_walk.induct)
  case (1 y d)
  show ?case
  proof (cases "d < year_days y")
    case False
    with "1.prems" have "year_walk (y + 1) (d - year_days y) = (y', d')"
      by (simp add: year_walk.simps [of y])
    with "1.IH" False show ?thesis by (simp add: days_to_year_step)
  qed (use "1.prems" in \<open>simp add: year_walk.simps\<close>)
qed

definition timegm :: "tm \<Rightarrow> int" where
  "timegm info =
     (days_to_year (tm_year info + 1900) +
      int (sum_list (take (tm_mon info) (month_days (tm_year info + 1900))) + (tm_mday info - 1)))
       * 86400 + int (tm_hour info * 3600 + tm_min info * 60 + tm_sec info)"

definition valid_tm :: "tm \<Rightarrow> bool" where
  "valid_tm info \<longleftrightarrow> tm_mon info < 12 \<and>
     1 \<le> tm_mday info \<and> tm_mday info \<le> month_days (tm_year info + 1900) ! tm_mon info \<and>
     tm_hour info < 24 \<and> tm_min info < 60 \<and> tm_sec info < 60"

lemma gmtime_cases:
  obtains y doy m d where
    "gmtime t = \<lparr>tm_year = y - 1900, tm_mon = m, tm_mday = Suc d,
       tm_hour = nat (t mod 86400) div 3600, tm_min = nat (t mod 86400) div 60 mod 60,
       tm_sec = nat (t mod 86400) mod 60\<rparr>"
    "days_to_year y + int doy = t div 86400"
    "m < 12" "d < month_days y ! m" "sum_list (take m (month_days y)) + d = doy"
proof -
  define c where "c = t div 86400 div 146097"
  obtain y doy where w: "year_walk (1970 + 400 * c) (nat (t div 86400 mod 146097)) = (y, doy)"
    by fastforce
  obtain m d where md: "month_walk (month_days y) doy = (m, d)" by fastforce
  have "days_to_year y + int doy = t div 86400"
    using year_walk_days [OF w] mult_div_mod_eq [of 146097 "t div 86400"]
    by (simp add: days_to_year_cycle c_def)
  moreover have "doy < sum_list (month_days y)"
    using year_walk_bound [OF w] by (simp add: sum_month_days)
  note month_walk_sum [OF md this]
  moreover have "length (month_days y) = 12" by (simp add: month_days_def)
  moreover have "gmtime t = \<lparr>tm_year = y - 1900, tm_mon = m, tm_mday = Suc d,
       tm_hour = nat (t mod 86400) div 3600, tm_min = nat (t mod 86400) div 60 mod 60,
       tm_sec = nat (t mod 86400) mod 60\<rparr>"
    using w md by (simp add: gmtime_def Let_def c_def)
  ultimately show thesis using that by simp
qed

lemma seconds_split:
  "(s :: nat) div 3600 * 3600 + s div 60 mod 60 * 60 + s mod 60 = s"
proof -
  have "s div 3600 = s div 60 div 60" by (simp add: div_mult2_eq [symmetric])
  then show ?thesis
    using div_mult_mod_eq [of s 60] div_mult_mod_eq [of "s div 60" 60] by linarith
qed

lemma timegm_gmtime: "timegm (gmtime t) = t"
proof -
  obtain y doy m d where
    g: "gmtime t = \<lparr>tm_year = y - 1900, tm_mon = m, tm_mday = Suc d,
       tm_hour = nat (t mod 86400) div 3600, tm_min = nat (t mod 86400) div 60 mod 60,
       tm_sec = nat (t mod 86400) mod 60\<rparr>"
    and days: "days_to_year y + int doy = t div 86400"
    and doy: "sum_list (take m (month_days y)) + d = doy"
    by (rule gmtime_cases)
  have "timegm (gmtime t) = (days_to_year y + int doy) * 86400 + int (nat (t mod 86400))"
    unfolding timegm_def g doy [symmetric]
    using seconds_split [of "nat (t mod 86400)"] by simp
  then show ?thesis by (simp add: days)
qed

lemma valid_gmtime: "valid_tm (gmtime t)"
proof -
  have "t mod 86400 < 86400" by simp
  then have "nat (t mod 86400) div 3600 < 24" by linarith
  moreover obtain y doy m d where
    "gmtime t = \<lparr>tm_year = y - 1900, tm_mon = m, tm_mday = Suc d,
       tm_hour = nat (t mod 86400) div 3600, tm_min = nat (t mod 86400) div 60 mod 60,
       tm_sec = nat (t mod 86400) mod 60\<rparr>" "m < 12" "d < month_days y ! m"
    by (rule gmtime_cases)
  ultimately show ?thesis by (simp add: valid_tm_def)
qed

section \<open>The text fits\<close>

lemma length_two_digits: "n < 100 \<Longrightarrow> length (two_digits n) = 2"
  using length_show_base [of 10 n 1] by (simp add: two_digits_def pad_left_def)

lemma length_show_int: "\<bar>i\<bar> < 10 ^ Suc k \<Longrightarrow> length (show_int i) \<le> Suc (Suc k)"
proof -
  assume "\<bar>i\<bar> < 10 ^ Suc k"
  then have "nat \<bar>i\<bar> < 10 ^ Suc k" by (simp add: nat_less_iff)
  then have "length (show_base 10 (nat \<bar>i\<bar>)) \<le> Suc k" by (intro length_show_base) auto
  then show ?thesis by (auto simp: show_int_def)
qed

lemma valid_tm_small:
  assumes "valid_tm info"
  shows "Suc (tm_mon info) < 100" "tm_mday info < 100" "tm_hour info < 100" "tm_min info < 100"
    "tm_sec info < 100"
proof -
  let ?ds = "month_days (tm_year info + 1900)"
  have "\<forall>n \<in> set ?ds. n \<le> 31" by (simp add: month_days_def)
  moreover have "?ds ! tm_mon info \<in> set ?ds"
    using assms by (intro nth_mem) (simp add: valid_tm_def month_days_def)
  ultimately have "?ds ! tm_mon info \<le> 31" by blast
  with assms show "Suc (tm_mon info) < 100" "tm_mday info < 100" "tm_hour info < 100"
    "tm_min info < 100" "tm_sec info < 100"
    unfolding valid_tm_def by linarith+
qed

lemma localtime_stamp_length:
  assumes "localtime_r tz t = Some info"
  shows "length (stamp_text info) \<le> 26"
proof -
  have v: "valid_tm info" and y: "\<bar>tm_year info + 1900\<bar> < 10 ^ Suc 9"
    using assms valid_gmtime by (auto simp: localtime_r_def Let_def split: if_splits)
  show ?thesis
    using length_show_int [OF y] valid_tm_small [OF v]
    by (simp add: stamp_text_def length_two_digits)
qed

lemma strftime_localtime:
  "localtime_r tz t = Some info \<Longrightarrow> strftime 50 info = Some (stamp_text info)"
  using localtime_stamp_length [of tz t info] by (simp add: strftime_def)

end
