(* ===== verification/Measurement.thy ===== *)
theory Measurement
  imports Sense C_Double C_Time C_Text Posix_IO
begin

text \<open>
  The formatting half of \<open>src/sense_utils.c\<close>: \<open>measurement_to_string\<close>, \<open>getTime\<close>,
  \<open>getDataString\<close>, \<open>write_all\<close> and \<open>writeFrameData\<close>. The measurements are computed in
  double precision (\<open>C_Double\<close>); the properties show that nothing is lost by that, that no
  buffer is ever too small, and what a log entry consists of.
\<close>

definition WRITE_BUFFER_SIZE :: nat where "WRITE_BUFFER_SIZE = 300"
definition INTER_BUF_SIZE :: nat where "INTER_BUF_SIZE = 50"

lemmas buffer_sizes = WRITE_BUFFER_SIZE_def INTER_BUF_SIZE_def

section \<open>Measurements\<close>

definition measurement_to_string :: "string option \<Rightarrow> nat \<Rightarrow> int \<Rightarrow> int \<Rightarrow> string option" where
  "measurement_to_string buffer len val scale =
     (if buffer = None \<or> len = 0 \<or> scale = 0 then buffer
      else Some (fst (snprintf len (show_fixed 6 (fl (fl (of_int val) / fl (of_int scale)))))))"

text \<open>A local buffer \<open>char b[INTER_BUF_SIZE] = ""\<close> after the conversion.\<close>

abbreviation measured :: "int \<Rightarrow> int \<Rightarrow> string" where
  "measured val scale \<equiv> the (measurement_to_string (Some []) INTER_BUF_SIZE val scale)"

section \<open>Time and data of a frame\<close>

definition getTime :: "(int \<Rightarrow> int) \<Rightarrow> Sensor_t \<Rightarrow> string option \<Rightarrow> string option" where
  "getTime tz frame str =
     (case str of
        None \<Rightarrow> None
      | Some _ \<Rightarrow>
          (case localtime_r tz (tv_sec (s_timestamp frame)) of
             None \<Rightarrow> Some []
           | Some info \<Rightarrow>
               (case strftime INTER_BUF_SIZE info of None \<Rightarrow> Some [] | Some s \<Rightarrow> Some s)))"

fun getDataString :: "Sensor_t \<Rightarrow> string option \<Rightarrow> string option" where
  "getDataString frame None = None"
| "getDataString frame (Some str) =
     (let d = s_data frame in
      case s_type frame of
        SENSOR_TYPE_POWCURRVOLT \<Rightarrow>
          Some (fst (snprintf WRITE_BUFFER_SIZE
            (measured (powcurrvolt_power d) POWER_SCALE @ ''W :: '' @
             measured (powcurrvolt_current d) CURRENT_SCALE @ ''A :: '' @
             measured (powcurrvolt_voltage d) VOLTAGE_SCALE @ ''V'')))
      | SENSOR_TYPE_TEMPPRESS \<Rightarrow>
          Some (fst (snprintf WRITE_BUFFER_SIZE
            (measured (temppress_temperature d) TEMPERATURE_SCALE @ ''C :: '' @
             measured (sint (temppress_pressure d)) PRESSURE_SCALE @ ''Pa'')))
      | SENSOR_TYPE_PROXIMITY \<Rightarrow>
          Some (fst (snprintf WRITE_BUFFER_SIZE
            (measured (sint (prox_proximity d)) PROXIMITY_SCALE @ ''m'')))
      | SENSOR_TYPE_TORQUE \<Rightarrow>
          Some (fst (snprintf WRITE_BUFFER_SIZE (measured (tor_torque d) TORQUE_SCALE @ ''Nm'')))
      | _ \<Rightarrow> Some [])"

section \<open>Writing a log entry\<close>

fun write_all_loop ::
  "'b list \<Rightarrow> nat \<Rightarrow> nat \<Rightarrow> send_event list \<Rightarrow> int io \<times> 'b list \<times> send_event list" where
  "write_all_loop buffer len written evs =
     (if written < len then
        (case evs of
           [] \<Rightarrow> (Blocked, [], [])
         | SendIntr # es \<Rightarrow> write_all_loop buffer len written es
         | SendFail # es \<Rightarrow> (Return (-1), [], es)
         | Sent n # es \<Rightarrow>
             (if n = 0 then (Return (-1), [], es)
              else let k = min n (len - written);
                       (r, out, rest) = write_all_loop buffer len (written + k) es
                   in (r, take k (drop written buffer) @ out, rest)))
      else (Return 0, [], evs))"

declare write_all_loop.simps [simp del]

definition write_all ::
  "int \<Rightarrow> 'b list option \<Rightarrow> nat \<Rightarrow> send_event list \<Rightarrow> int io \<times> 'b list \<times> send_event list" where
  "write_all fd buffer len evs =
     (case buffer of
        None \<Rightarrow> (Return (-1), [], evs)
      | Some b \<Rightarrow> if fd < 0 then (Return (-1), [], evs) else write_all_loop b len 0 evs)"

interpretation log_sink: counting_sink write_all_loop
  by unfold_locales (rule write_all_loop.simps)

text \<open>The title line of a new file and the entry line, per case of the \<open>switch\<close>.\<close>

fun frame_title :: "SensorType_e \<Rightarrow> string option" where
  "frame_title SENSOR_TYPE_POWCURRVOLT =
     Some (''<Timestamp> -> <power>W :: <current>A :: <voltage>V'' @ [NEWLINE])"
| "frame_title SENSOR_TYPE_TEMPPRESS =
     Some (''<Timestamp> -> <temperature>C :: <pressure>Pa'' @ [NEWLINE])"
| "frame_title SENSOR_TYPE_PROXIMITY = Some (''<Timestamp> -> <proximity>m'' @ [NEWLINE])"
| "frame_title SENSOR_TYPE_TORQUE = Some (''<Timestamp> -> <torque>Nm'' @ [NEWLINE])"
| "frame_title _ = None"

fun frame_line :: "string \<Rightarrow> SensorData_u \<Rightarrow> SensorType_e \<Rightarrow> string" where
  "frame_line timestamp d SENSOR_TYPE_POWCURRVOLT =
     timestamp @ '' -> '' @ measured (powcurrvolt_power d) POWER_SCALE @ ''W :: '' @
     measured (powcurrvolt_current d) CURRENT_SCALE @ ''A :: '' @
     measured (powcurrvolt_voltage d) VOLTAGE_SCALE @ ''V'' @ [NEWLINE]"
| "frame_line timestamp d SENSOR_TYPE_TEMPPRESS =
     timestamp @ '' -> '' @ measured (temppress_temperature d) TEMPERATURE_SCALE @ ''C :: '' @
     measured (sint (temppress_pressure d)) PRESSURE_SCALE @ ''Pa'' @ [NEWLINE]"
| "frame_line timestamp d SENSOR_TYPE_PROXIMITY =
     timestamp @ '' -> '' @ measured (sint (prox_proximity d)) PROXIMITY_SCALE @ ''m'' @ [NEWLINE]"
| "frame_line timestamp d SENSOR_TYPE_TORQUE =
     timestamp @ '' -> '' @ measured (tor_torque d) TORQUE_SCALE @ ''Nm'' @ [NEWLINE]"
| "frame_line timestamp d _ = []"

text \<open>
  \<open>snprintf\<close> into a buffer of \<open>WRITE_BUFFER_SIZE\<close>, the check of its result, \<open>write_all\<close>.
\<close>

definition write_text ::
  "int \<Rightarrow> string \<Rightarrow> send_event list \<Rightarrow> int io \<times> string \<times> send_event list" where
  "write_text fd s evs =
     (let (buffer, result) = snprintf WRITE_BUFFER_SIZE s
      in if result < 0 \<or> nat result \<ge> WRITE_BUFFER_SIZE then (Return (-1), [], evs)
         else write_all fd (Some buffer) (nat result) evs)"

definition writeFrameData ::
  "(int \<Rightarrow> int) \<Rightarrow> SensorData_u \<Rightarrow> SensorType_e \<Rightarrow> sensor_timespec_t \<Rightarrow> byte \<Rightarrow> int \<Rightarrow>
   send_event list \<Rightarrow> int io \<times> string \<times> send_event list" where
  "writeFrameData tz dat t stamp flag fd evs =
     (if fd < 0 then (Return (-1), [], evs)
      else case localtime_r tz (tv_sec stamp) of
        None \<Rightarrow> (Return (-1), [], evs)
      | Some info \<Rightarrow>
          (case strftime INTER_BUF_SIZE info of
             None \<Rightarrow> (Return (-1), [], evs)
           | Some timestamp \<Rightarrow>
               (case frame_title t of
                  None \<Rightarrow> (Return (-1), [], evs)
                | Some title \<Rightarrow>
                    (case (if flag = 1 then write_text fd title evs else (Return 0, [], evs)) of
                       (Blocked, out, rest) \<Rightarrow> (Blocked, out, rest)
                     | (Return r, out, rest) \<Rightarrow>
                         (if r = -1 then (Return (-1), out, rest)
                          else let (r', out', rest') =
                                 write_text fd (frame_line timestamp dat t) rest
                               in (r', out @ out', rest'))))))"

section \<open>Exact decimals\<close>

text \<open>
  The value a decimal notation denotes: an optional sign, digits, a point and digits.
\<close>

definition decimal_value :: "string \<Rightarrow> rat" where
  "decimal_value s =
     (let neg = (take 1 s = ''-''); u = (if neg then tl s else s);
          (i, rest) = read_digits 10 0 u; frac = tl rest; (f, _) = read_digits 10 0 frac
      in (if neg then -1 else 1) * (of_nat i + of_nat f / 10 ^ length frac))"

lemma read_zeros: "read_digits 10 acc (replicate n (CHR ''0'') @ s) = read_digits 10 (acc * 10 ^ n) s"
  by (induction n arbitrary: acc) (simp_all add: digit_val_def Let_def mult.assoc)

lemma digit_val_minus: "digit_val (CHR ''-'') = None" and digit_val_dot: "digit_val (CHR ''.'') = None"
  by (simp_all add: digit_val_def)

lemma show_base_hd: "take 1 (show_base 10 n @ s) \<noteq> ''-''"
proof
  assume "take 1 (show_base 10 n @ s) = ''-''"
  then have "show_base 10 n @ s = CHR ''-'' # drop 1 (show_base 10 n @ s)"
    by (metis append_Cons append_Nil append_take_drop_id)
  then obtain cs where "show_base 10 n = CHR ''-'' # cs"
    by (metis append_eq_Cons_conv show_base_not_Nil)
  with read_show_base [of 10 0 n "[]"] have "read_digits 10 0 (CHR ''-'' # cs) = (n, [])" by simp
  then show False by (simp add: digit_val_minus)
qed

lemma length_pad6: "n < 10 ^ 6 \<Longrightarrow> length (pad_left 6 (CHR ''0'') (show_base 10 n)) = 6"
  using length_show_base [of 10 n 5] by (simp add: pad_left_def)

lemma decimal_value_fraction:
  assumes "s * q = 10 ^ 6" "0 < s"
  shows "decimal_value (decimal_fraction v s) = of_int v / of_nat s"
proof -
  define a where "a = nat \<bar>v\<bar>"
  define f where "f = a mod s * q"
  have q: "10 ^ 6 div s = q" using assms by (metis nonzero_mult_div_cancel_left not_less_zero)
  have "0 < q" using assms(1) by (cases q) auto
  have "f < s * q" unfolding f_def using assms(2) \<open>0 < q\<close> by (intro mult_strict_right_mono) auto
  then have len: "length (pad_left 6 (CHR ''0'') (show_base 10 f)) = 6"
    using assms(1) by (intro length_pad6) simp
  have int_part: "read_digits 10 0 (show_base 10 n @ CHR ''.'' # cs) = (n, CHR ''.'' # cs)" for n cs
    by (simp add: read_show_base digit_val_dot)
  have frac: "read_digits 10 0 (pad_left 6 (CHR ''0'') (show_base 10 f)) = (f, [])"
    using read_show_base [of 10 0 f "[]"] by (simp add: pad_left_def read_zeros)
  have "(of_nat f :: rat) / 10 ^ 6 = of_nat (a mod s) / of_nat s"
  proof -
    have ten: "(10 :: rat) ^ 6 = of_nat s * of_nat q"
      by (metis assms(1) of_nat_mult of_nat_numeral of_nat_power)
    show ?thesis unfolding f_def of_nat_mult ten using assms(2) \<open>0 < q\<close> by simp
  qed
  moreover have "(of_nat (a div s) :: rat) + of_nat (a mod s) / of_nat s = of_nat a / of_nat s"
    using assms(2) by (simp add: field_simps flip: of_nat_mult of_nat_add)
  ultimately have sum: "(of_nat (a div s) :: rat) + of_nat f / 10 ^ 6 = of_nat a / of_nat s" by simp
  have layout: "decimal_fraction v s = (if v < 0 then ''-'' else []) @ show_base 10 (a div s) @
      CHR ''.'' # pad_left 6 (CHR ''0'') (show_base 10 f)"
    unfolding decimal_fraction_def Let_def q a_def [symmetric] f_def [symmetric] by simp
  have val: "(if v < 0 then -1 else 1) * (of_nat a / of_nat s :: rat) = of_int v / of_nat s"
    by (simp add: a_def)
  show ?thesis
    unfolding layout decimal_value_def Let_def val [symmetric] sum [symmetric]
    using show_base_hd [of "a div s" "CHR ''.'' # pad_left 6 (CHR ''0'') (show_base 10 f)"]
    by (cases "v < 0") (simp_all add: int_part frac len)
qed

section \<open>Measurements are printed exactly\<close>

abbreviation gateway_scale :: "int \<Rightarrow> bool" where
  "gateway_scale s \<equiv> s = 10 \<or> s = 100"

lemma decimal_fraction_length:
  assumes "\<bar>v\<bar> \<le> 2 ^ 31" "s * q = 10 ^ 6" "0 < s"
  shows "length (decimal_fraction v s) \<le> 18"
proof -
  define a where "a = nat \<bar>v\<bar>"
  have "a div s \<le> a" by simp
  also have "a < 10 ^ Suc 9" using assms(1) by (simp add: a_def nat_less_iff)
  finally have "length (show_base 10 (a div s)) \<le> 10"
    using length_show_base [of 10 "a div s" 9] by simp
  moreover have "0 < q" using assms(2) by (cases q) auto
  then have "a mod s * q < s * q" using assms(3) by (intro mult_strict_right_mono) auto
  then have "length (pad_left 6 (CHR ''0'') (show_base 10 (a mod s * q))) = 6"
    using assms(2) by (intro length_pad6) simp
  moreover have "10 ^ 6 div s = q" using assms by (metis nonzero_mult_div_cancel_left not_less_zero)
  ultimately show ?thesis by (simp add: decimal_fraction_def Let_def flip: a_def)
qed

lemma measured_eq:
  assumes "\<bar>v\<bar> \<le> 2 ^ 31" "gateway_scale s"
  shows "measurement_to_string (Some b) INTER_BUF_SIZE v s = Some (decimal_fraction v (nat s))"
proof -
  have "nat s * (if s = 10 then 10 ^ 5 else 10 ^ 4) = 10 ^ 6" "0 < nat s"
    using assms(2) by auto
  note q = assms(1) this
  have "fl (of_int v) = of_int v" "fl (of_int s) = of_nat (nat s)"
    using assms by (auto intro!: fl_of_int simp: fl_of_int [of 10, simplified] fl_of_int [of 100, simplified])
  then have "show_fixed 6 (fl (fl (of_int v) / fl (of_int s))) = decimal_fraction v (nat s)"
    using show_fixed_fl_quotient [OF q] by simp
  moreover have "s \<noteq> 0" using assms(2) by auto
  ultimately show ?thesis
    using decimal_fraction_length [OF q]
    by (simp add: measurement_to_string_def snprintf_fits INTER_BUF_SIZE_def)
qed

lemma sint32_bounds: "\<bar>sint (w :: u32)\<bar> \<le> 2 ^ 31"
  using sint_greater_eq [of w] sint_less [of w] by (simp add: abs_le_iff)

lemma scales [simp]:
  "gateway_scale TEMPERATURE_SCALE" "gateway_scale PRESSURE_SCALE" "gateway_scale VOLTAGE_SCALE"
  "gateway_scale CURRENT_SCALE" "gateway_scale POWER_SCALE" "gateway_scale TORQUE_SCALE"
  "gateway_scale PROXIMITY_SCALE"
  by (simp_all add: scale_defs)

text \<open>The fields of a reading: value, scale and unit.\<close>

fun data_fields :: "SensorType_e \<Rightarrow> SensorData_u \<Rightarrow> (int \<times> int \<times> string) list" where
  "data_fields SENSOR_TYPE_POWCURRVOLT d =
     [(sint (word0 d), 10, ''W''), (sint (word4 d), 100, ''A''), (sint (word8 d), 100, ''V'')]"
| "data_fields SENSOR_TYPE_TEMPPRESS d =
     [(sint (word0 d), 10, ''C''), (sint (word4 d), 100, ''Pa'')]"
| "data_fields SENSOR_TYPE_PROXIMITY d = [(sint (word0 d), 10, ''m'')]"
| "data_fields SENSOR_TYPE_TORQUE d = [(sint (word0 d), 10, ''Nm'')]"
| "data_fields _ d = []"

fun join_fields :: "(int \<times> int \<times> string) list \<Rightarrow> string" where
  "join_fields [] = []"
| "join_fields [(v, s, unit)] = decimal_fraction v (nat s) @ unit"
| "join_fields ((v, s, unit) # fs) = decimal_fraction v (nat s) @ unit @ '' :: '' @ join_fields fs"

abbreviation data_text :: "SensorType_e \<Rightarrow> SensorData_u \<Rightarrow> string" where
  "data_text t d \<equiv> join_fields (data_fields t d)"

lemmas member_defs = powcurrvolt_power_def powcurrvolt_current_def powcurrvolt_voltage_def
  temppress_temperature_def temppress_pressure_def tor_torque_def prox_proximity_def

lemma decimal_length_10: "\<bar>v\<bar> \<le> 2 ^ 31 \<Longrightarrow> length (decimal_fraction v 10) \<le> 18"
  and decimal_length_100: "\<bar>v\<bar> \<le> 2 ^ 31 \<Longrightarrow> length (decimal_fraction v 100) \<le> 18"
  using decimal_fraction_length [of v 10 "10 ^ 5"] decimal_fraction_length [of v 100 "10 ^ 4"]
  by simp_all

lemma data_text_length: "length (data_text t d) \<le> 67"
  using decimal_length_10 [OF sint32_bounds, of "word0 d"]
    decimal_length_100 [OF sint32_bounds, of "word4 d"]
    decimal_length_100 [OF sint32_bounds, of "word8 d"]
  by (cases t) simp_all

lemma measured_sint [simp]:
  "gateway_scale s \<Longrightarrow> measured (sint (w :: u32)) s = decimal_fraction (sint w) (nat s)"
  by (simp only: measured_eq [OF sint32_bounds] option.sel)

lemma getDataString_text: "getDataString frame (Some str) = Some (data_text (s_type frame) (s_data frame))"
  using data_text_length [of "s_type frame" "s_data frame"]
  by (cases "s_type frame") (simp_all add: snprintf_fits WRITE_BUFFER_SIZE_def Let_def member_defs scale_defs)

declare getDataString.simps(2) [simp del]

lemma frame_line_text:
  "supported t \<Longrightarrow> frame_line timestamp d t = timestamp @ '' -> '' @ data_text t d @ [NEWLINE]"
  by (cases t) (simp_all add: member_defs scale_defs)

lemma frame_title_length: "frame_title t = Some title \<Longrightarrow> length title < WRITE_BUFFER_SIZE"
  by (cases t) (auto simp: WRITE_BUFFER_SIZE_def)

lemma frame_title_supported: "frame_title t = None \<longleftrightarrow> \<not> supported t"
  by (cases t) simp_all

lemma write_text_loop:
  "0 \<le> fd \<Longrightarrow> length s < WRITE_BUFFER_SIZE \<Longrightarrow>
   write_text fd s evs = write_all_loop s (length s) 0 evs"
  by (simp add: write_text_def snprintf_fits write_all_def)

lemma write_text_prefix:
  assumes "write_text fd s evs = (r, out, rest)" "0 \<le> fd" "length s < WRITE_BUFFER_SIZE"
  shows "(\<exists>k. out = take k s) \<and> (r = Return 0 \<longleftrightarrow> out = s)"
    and "r \<in> {Return 0, Return (-1), Blocked}"
  using log_sink.transmit_prefix [of s evs r out rest] log_sink.transmit_results [of s evs] assms
  by (auto simp: write_text_loop)

lemma writeFrameData_eq:
  assumes "supported t" "0 \<le> fd" "localtime_r tz (tv_sec stamp) = Some info" "frame_title t = Some title"
  shows "writeFrameData tz dat t stamp flag fd evs =
    (case (if flag = 1 then write_text fd title evs else (Return 0, [], evs)) of
       (Blocked, out, rest) \<Rightarrow> (Blocked, out, rest)
     | (Return r, out, rest) \<Rightarrow>
         (if r = -1 then (Return (-1), out, rest)
          else let (r', out', rest') =
                 write_text fd (stamp_text info @ '' -> '' @ data_text t dat @ [NEWLINE]) rest
               in (r', out @ out', rest')))"
proof -
  have "strftime INTER_BUF_SIZE info = Some (stamp_text info)"
    using strftime_localtime [OF assms(3)] by (simp add: INTER_BUF_SIZE_def)
  with assms show ?thesis
    unfolding writeFrameData_def frame_line_text [OF assms(1), symmetric] by simp
qed

lemma prefix_append:
  assumes "(\<exists>k. out = take k s) \<and> (r = Return 0 \<longleftrightarrow> out = s)"
  shows "(\<exists>k. pre @ out = take k (pre @ s)) \<and> (r = Return 0 \<longleftrightarrow> pre @ out = pre @ s)"
proof -
  from assms obtain k where k: "out = take k s" by blast
  then have "pre @ out = take (length pre + k) (pre @ s)" by simp
  with assms show ?thesis by blast
qed

lemma prefix_extend:
  assumes "\<exists>k. out = take k s" "out \<noteq> s" "s' \<noteq> []"
  shows "(\<exists>k. out = take k (s @ s')) \<and> out \<noteq> s @ s'"
proof -
  from assms obtain k where k: "out = take k s" "k < length s" by (metis not_less take_all)
  then have "out = take k (s @ s')" "length out < length (s @ s')" by simp_all
  then show ?thesis by (metis less_irrefl)
qed

lemma writeFrameData_prefix:
  assumes "supported t" "0 \<le> fd" "localtime_r tz (tv_sec stamp) = Some info"
    and "writeFrameData tz dat t stamp flag fd evs = (r, out, rest)"
  shows "let entry = (if flag = 1 then the (frame_title t) else []) @ stamp_text info @ '' -> '' @
      join_fields (data_fields t dat) @ [NEWLINE]
    in (\<exists>k. out = take k entry) \<and> (r = Return 0 \<longleftrightarrow> out = entry)"
proof -
  obtain title where title: "frame_title t = Some title"
    using assms(1) frame_title_supported by blast
  define line where "line = stamp_text info @ '' -> '' @ data_text t dat @ [NEWLINE]"
  have "length line < WRITE_BUFFER_SIZE"
    using localtime_stamp_length [OF assms(3)] data_text_length [of t dat]
    by (simp add: line_def WRITE_BUFFER_SIZE_def)
  note line_prefix = write_text_prefix [OF _ assms(2) this]
  note title_prefix = write_text_prefix [OF _ assms(2) frame_title_length [OF title]]
  note run = assms(4) [unfolded writeFrameData_eq [OF assms(1-3) title] line_def [symmetric]]
  show ?thesis
  proof (cases "flag = 1")
    case False
    with run have "write_text fd line evs = (r, out, rest)" by (auto split: prod.splits)
    from line_prefix(1) [OF this] show ?thesis using False by (simp add: line_def)
  next
    case True
    obtain r1 out1 rest1 where w1: "write_text fd title evs = (r1, out1, rest1)"
      by (metis prod_cases3)
    note t = title_prefix [OF w1]
    show ?thesis
    proof (cases "r1 = Return 0")
      case fin: True
      with t have "out1 = title" by simp
      with fin True run w1 obtain out2 where "write_text fd line rest1 = (r, out2, rest)" "out = title @ out2"
        by (auto split: prod.splits)
      with prefix_append [OF line_prefix(1)] show ?thesis
        unfolding Let_def title by (simp add: True line_def)
    next
      case False
      with True run w1 t(2) have "r = r1" "out = out1" by auto
      with False t(1) prefix_extend [of out title line] show ?thesis
        unfolding Let_def title by (simp add: True line_def)
    qed
  qed
qed

lemma write_text_results: "fst (write_text fd s evs) \<in> {Return 0, Return (-1), Blocked}"
  using log_sink.transmit_results [of s evs]
  by (auto simp: write_text_def write_all_def snprintf_def Let_def WRITE_BUFFER_SIZE_def)

lemma writeFrameData_results:
  "fst (writeFrameData tz dat t stamp flag fd evs) \<in> {Return 0, Return (-1), Blocked}"
proof -
  have "fst (case x of (Blocked, out, rest) \<Rightarrow> (Blocked, out, rest)
      | (Return r, out, rest) \<Rightarrow> if r = -1 then (Return (-1), out, rest)
          else let (r', out', rest') = write_text fd line rest in (r', out @ out', rest'))
      \<in> {Return 0, Return (-1), Blocked}" for x :: "int io \<times> string \<times> send_event list" and line
    using write_text_results [of fd line] by (auto simp: Let_def split: prod.splits io.splits) (metis fst_conv)+
  then show ?thesis
    unfolding writeFrameData_def by (auto split: option.split)
qed

section \<open>Properties\<close>

text \<open>
  C17: A measurement is printed exactly: for every 32-bit value and both scales of the gateway the
  quotient computed in double precision and rounded to six decimals is the decimal notation of
  \<open>v / s\<close>, without truncation by the 50-byte buffer.
\<close>

theorem measurement_exact:
  assumes "- (2 ^ 31) \<le> v" "v < 2 ^ 31" "s = 10 \<or> s = 100"
  shows "\<exists>txt. measurement_to_string (Some b) INTER_BUF_SIZE v s = Some txt \<and>
    length txt < INTER_BUF_SIZE \<and> decimal_value txt = of_int v / of_int s"
proof -
  have q: "nat s * (if s = 10 then 10 ^ 5 else 10 ^ 4) = 10 ^ 6" "0 < nat s"
    using assms(3) by auto
  have v: "\<bar>v\<bar> \<le> 2 ^ 31" using assms(1,2) by (simp add: abs_le_iff)
  show ?thesis
    using measured_eq [OF v assms(3)] decimal_fraction_length [OF v q] decimal_value_fraction [OF q] q(2)
    by (auto simp: INTER_BUF_SIZE_def)
qed

theorem measurement_exact_witness:
  "\<exists>txt. measurement_to_string (Some []) INTER_BUF_SIZE (-1234567) 100 = Some txt \<and>
     length txt < INTER_BUF_SIZE \<and> decimal_value txt = of_int (-1234567) / of_int 100"
  by (rule measurement_exact) simp_all

text \<open>
  The data text of a frame shows every field of the reading, in order, with its unit: nothing
  is cut off by the 50-byte or the 300-byte buffer, for any type and any data.
\<close>

theorem data_string_complete:
  "getDataString frame (Some str) = Some (join_fields (data_fields (s_type frame) (s_data frame)))"
  by (rule getDataString_text)

text \<open>
  C18: A log entry is all or a prefix. For a supported type and a valid descriptor and date, what
  \<open>writeFrameData\<close> has written is a prefix of the entry (title line of a new file, time stamp,
  data text, newline), and it returns 0 exactly when the whole entry was written: no buffer check
  fails.
\<close>

theorem log_entry_all_or_prefix:
  assumes "supported t" "0 \<le> fd" "localtime_r tz (tv_sec stamp) = Some info"
    and "writeFrameData tz dat t stamp flag fd evs = (r, out, rest)"
  shows "let entry = (if flag = 1 then the (frame_title t) else []) @ stamp_text info @ '' -> '' @
      join_fields (data_fields t dat) @ [NEWLINE]
    in (\<exists>k. out = take k entry) \<and> (r = Return 0 \<longleftrightarrow> out = entry)"
  using assms by (rule writeFrameData_prefix)

definition example_stamp :: sensor_timespec_t where
  "example_stamp = \<lparr>tv_sec = 0, tv_nsec = 0\<rparr>"

lemma example_localtime:
  "localtime_r (\<lambda>_. 0) (tv_sec example_stamp) =
     Some \<lparr>tm_year = 70, tm_mon = 0, tm_mday = 1, tm_hour = 0, tm_min = 0, tm_sec = 0\<rparr>"
  by (simp add: localtime_r_def gmtime_def example_stamp_def year_walk.simps year_days_def
      month_days_def leap_def)

theorem log_entry_all_or_prefix_witness:
  "let (r, out, rest) = writeFrameData (\<lambda>_. 0) zero_data SENSOR_TYPE_TORQUE example_stamp 1 3 [Sent 5];
       entry = the (frame_title SENSOR_TYPE_TORQUE) @
         stamp_text \<lparr>tm_year = 70, tm_mon = 0, tm_mday = 1, tm_hour = 0, tm_min = 0, tm_sec = 0\<rparr> @
         '' -> '' @ join_fields (data_fields SENSOR_TYPE_TORQUE zero_data) @ [NEWLINE]
   in (\<exists>k. out = take k entry) \<and> (r = Return 0 \<longleftrightarrow> out = entry)"
proof -
  obtain r out rest where
    w: "writeFrameData (\<lambda>_. 0) zero_data SENSOR_TYPE_TORQUE example_stamp 1 3 [Sent 5] = (r, out, rest)"
    by (metis prod_cases3)
  from log_entry_all_or_prefix [OF _ _ example_localtime w] show ?thesis
    by (simp add: w Let_def)
qed

text \<open>
  A pressure is a \<open>uint32_t\<close>, but it is converted to \<open>int32_t\<close> before it is printed: a
  value of at least \<open>2\<^sup>3\<^sup>1\<close> is shown as the negative number \<open>p - 2\<^sup>3\<^sup>2\<close>.
\<close>

theorem large_pressure_shown_negative:
  assumes "s_type frame = SENSOR_TYPE_TEMPPRESS" "2 ^ 31 \<le> uint (temppress_pressure (s_data frame))"
  shows "getDataString frame (Some str) =
    Some (decimal_fraction (temppress_temperature (s_data frame)) 10 @ ''C :: '' @
      decimal_fraction (uint (temppress_pressure (s_data frame)) - 2 ^ 32) 100 @ ''Pa'')"
proof -
  have "sint w = uint w - 2 ^ 32" if "2 ^ 31 \<le> uint w" for w :: u32
  proof -
    have "uint w div 2 ^ 31 = 1" using that uint_bounded [of w] by simp
    then have "bit (uint w) 31" by (simp add: bit_iff_odd)
    moreover have "take_bit 32 (uint w) = uint w"
      using uint_bounded [of w] by (simp add: take_bit_int_eq_self)
    ultimately show ?thesis by (simp add: sint_uint signed_take_bit_eq_take_bit_minus)
  qed
  with assms show ?thesis
    unfolding getDataString_text by (simp add: member_defs)
qed

theorem large_pressure_shown_negative_witness:
  "getDataString (zero_sensor\<lparr>s_type := SENSOR_TYPE_TEMPPRESS,
       s_data := zero_data\<lparr>word4 := 0xC0000000\<rparr>\<rparr>) (Some []) =
     Some (decimal_fraction 0 10 @ ''C :: '' @ decimal_fraction (- (2 ^ 30)) 100 @ ''Pa'')"
  using large_pressure_shown_negative [of
      "zero_sensor\<lparr>s_type := SENSOR_TYPE_TEMPPRESS, s_data := zero_data\<lparr>word4 := 0xC0000000\<rparr>\<rparr>" "[]"]
  by (simp add: member_defs zero_data_def)

end
