(* ===== verification/Frame_Receiver.thy ===== *)
theory Frame_Receiver
  imports Sense Posix_IO
begin

text \<open>
  Receiving frames from a message queue, as the logging and the telemetry daemon do. The
  environment is the sequence of what happens at \<open>mq_receive\<close>: a message arrives (its length
  and what the frame object holds afterwards), the call is interrupted by a signal, a signal is
  handled elsewhere (between calls or by another thread) while the call goes on waiting, or the
  call fails. The two \<open>receiveFrame\<close> routines differ in where they look at \<open>exitRQ\<close>; the
  locale states what they have in common.
\<close>

datatype frame_event = FrameMsg nat Sensor_t | FrameIntr int | FrameSignal int | FrameFail

datatype frame_recv = GotFrame nat Sensor_t | FrameEintr | FrameErr

fun mq_wait :: "bool \<Rightarrow> frame_event list \<Rightarrow> frame_recv io \<times> bool \<times> frame_event list" where
  "mq_wait ex [] = (Blocked, ex, [])"
| "mq_wait ex (FrameSignal sg # es) = mq_wait (signalHandler sg ex) es"
| "mq_wait ex (FrameMsg n fr # es) = (Return (GotFrame n fr), ex, es)"
| "mq_wait ex (FrameIntr sg # es) = (Return FrameEintr, signalHandler sg ex, es)"
| "mq_wait ex (FrameFail # es) = (Return FrameErr, ex, es)"

lemma mq_wait_shrinks: "mq_wait ex evs = (Return r, ex', evs') \<Longrightarrow> length evs' < length evs"
  by (induction ex evs rule: mq_wait.induct) auto

text \<open>The result of \<open>receiveFrame\<close>: the number it returns and the frame, when one was received.\<close>

type_synonym frame_result = "(int \<times> Sensor_t option) io \<times> bool \<times> frame_event list"

fun benign_event :: "frame_event \<Rightarrow> bool" where
  "benign_event (FrameIntr sg) = (\<not> terminating sg)"
| "benign_event (FrameSignal sg) = (\<not> terminating sg)"
| "benign_event _ = False"

locale frame_receiver =
  fixes rx :: "bool \<Rightarrow> frame_event list \<Rightarrow> frame_result"
  assumes rx_rec: "rx False evs =
    (case mq_wait False evs of
       (Blocked, ex', es) \<Rightarrow> (Blocked, ex', es)
     | (Return (GotFrame n fr), ex', es) \<Rightarrow> (Return (int n, Some fr), ex', es)
     | (Return FrameErr, ex', es) \<Rightarrow> (Return (-1, None), ex', es)
     | (Return FrameEintr, ex', es) \<Rightarrow>
         (if ex' then (Return (-1, None), ex', es) else rx ex' es))"
begin

lemma rx_shrinks: "rx False evs = (Return r, ex', evs') \<Longrightarrow> length evs' < length evs"
proof (induction evs rule: length_induct)
  case (1 evs)
  obtain w ex1 es1 where w: "mq_wait False evs = (w, ex1, es1)" by (metis prod_cases3)
  show ?case
  proof (cases w)
    case (Return v)
    with w have less: "length es1 < length evs" by (auto dest: mq_wait_shrinks)
    show ?thesis
    proof (cases "v = FrameEintr \<and> \<not> ex1")
      case True
      with "1.prems" w Return have "rx False es1 = (Return r, ex', evs')"
        by (subst (asm) rx_rec) simp
      with "1.IH" less show ?thesis by fastforce
    next
      case False
      with "1.prems" w Return less show ?thesis
        by (subst (asm) rx_rec) (auto split: frame_recv.splits)
    qed
  qed (use "1.prems" w in \<open>subst (asm) rx_rec, simp\<close>)
qed

text \<open>Signals that do not ask for the end never lose or delay a frame.\<close>

lemma rx_delivers:
  assumes "list_all benign_event pre"
  shows "rx False (pre @ FrameMsg n fr # es) = (Return (int n, Some fr), False, es)"
  using assms
proof (induction pre)
  case Nil
  then show ?case by (subst rx_rec) simp
next
  case (Cons e pre)
  then show ?case
  proof (cases e)
    case (FrameSignal sg)
    with Cons have "rx False ((e # pre) @ FrameMsg n fr # es) = rx False (pre @ FrameMsg n fr # es)"
      by (subst (1 2) rx_rec) simp
    with Cons show ?thesis by simp
  qed (use Cons in \<open>subst rx_rec; simp\<close>)+
qed

text \<open>The result -1 comes from a request to end or from a failed call.\<close>

lemma rx_failure:
  assumes "rx False evs = (Return (r, None), ex', evs')"
  shows "r = -1 \<and> (ex' \<or> FrameFail \<in> set evs)"
  using assms
proof (induction evs rule: length_induct)
  case (1 evs)
  have mem: "mq_wait ex es = (Return v, ex'', es') \<Longrightarrow> set es' \<subseteq> set es \<and> (v = FrameErr \<longrightarrow> FrameFail \<in> set es)"
    for ex es v ex'' es'
    by (induction ex es rule: mq_wait.induct) auto
  obtain w ex1 es1 where w: "mq_wait False evs = (w, ex1, es1)" by (metis prod_cases3)
  show ?case
  proof (cases w)
    case (Return v)
    with w have less: "length es1 < length evs" by (auto dest: mq_wait_shrinks)
    show ?thesis
    proof (cases "v = FrameEintr \<and> \<not> ex1")
      case True
      with "1.prems" w Return have "rx False es1 = (Return (r, None), ex', evs')"
        by (subst (asm) rx_rec) simp
      with "1.IH" less mem w Return show ?thesis by blast
    next
      case False
      with "1.prems" w Return mem show ?thesis
        by (subst (asm) rx_rec) (fastforce split: frame_recv.splits if_splits)
    qed
  qed (use "1.prems" w in \<open>subst (asm) rx_rec, simp\<close>)
qed

end

end
