(* ===== verification/Logging.thy ===== *)
theory Logging
  imports Measurement Frame_Receiver Server
begin

text \<open>
  \<open>src/logging_d.c\<close>: the logging daemon. Frames are received from \<open>/mq-process-log\<close> and
  appended to one file per sensor. The state holds the contents of the files, the open
  descriptors and what the environment will answer to \<open>open\<close>/\<open>lseek\<close> and \<open>write\<close>. The
  abstract log (\<open>add_entry\<close>) is what the daemon promises; \<open>log_crash_consistent\<close> relates every
  run to it.
\<close>

definition FILENAME_SIZE :: nat where "FILENAME_SIZE = 64"
definition filepath :: string where "filepath = ''/var/sensorlog/''"
definition filename_extension :: string where "filename_extension = ''.csv''"
definition log_RX_MQ_NAME :: string where "log_RX_MQ_NAME = ''/mq-process-log''"

lemmas log_name_defs = FILENAME_SIZE_def filepath_def filename_extension_def

section \<open>State\<close>

text \<open>\<open>OpenOk fd s\<close>: \<open>open\<close> returns \<open>fd\<close>; the following \<open>lseek\<close> succeeds iff \<open>s\<close>.\<close>

datatype open_event = OpenOk nat bool | OpenIntr int | OpenFail

record log_state =
  ls_exit :: bool
  ls_files :: "string \<Rightarrow> string option"
  ls_fds :: "int \<Rightarrow> string option"
  ls_opens :: "open_event list"
  ls_writes :: "send_event list"
  ls_acts :: "sys_act list"

abbreviation act :: "sys_act list \<Rightarrow> log_state \<Rightarrow> log_state" where
  "act as s \<equiv> s\<lparr>ls_acts := ls_acts s @ as\<rparr>"

definition log_close :: "int \<Rightarrow> log_state \<Rightarrow> log_state" where
  "log_close fd s = act [Release (ResFd fd)] (s\<lparr>ls_fds := (ls_fds s)(fd := None)\<rparr>)"

definition file_text :: "(string \<Rightarrow> string option) \<Rightarrow> string \<Rightarrow> string" where
  "file_text files p = (case files p of None \<Rightarrow> [] | Some c \<Rightarrow> c)"

section \<open>Operations\<close>

function log_receiveFrame :: "bool \<Rightarrow> frame_event list \<Rightarrow> frame_result" where
  "log_receiveFrame ex evs =
     (case mq_wait ex evs of
        (Blocked, ex', es) \<Rightarrow> (Blocked, ex', es)
      | (Return (GotFrame n fr), ex', es) \<Rightarrow> (Return (int n, Some fr), ex', es)
      | (Return FrameErr, ex', es) \<Rightarrow> (Return (-1, None), ex', es)
      | (Return FrameEintr, ex', es) \<Rightarrow>
          (if ex' then (Return (-1, None), ex', es) else log_receiveFrame ex' es))"
  by pat_completeness auto
termination
  by (relation "measure (\<lambda>(ex, evs). length evs)") (auto dest: mq_wait_shrinks [OF sym])

declare log_receiveFrame.simps [simp del]

interpretation log_rx: frame_receiver log_receiveFrame
  by unfold_locales (subst log_receiveFrame.simps, simp)

text \<open>The loop at label \<open>retry_open\<close>; \<open>None\<close> is the return of -1.\<close>

fun retry_open :: "bool \<Rightarrow> open_event list \<Rightarrow> (int \<times> bool) option io \<times> bool \<times> open_event list" where
  "retry_open ex [] = (Blocked, ex, [])"
| "retry_open ex (OpenIntr sg # es) =
     (let ex' = signalHandler sg ex
      in if ex' then (Return None, ex', es) else retry_open ex' es)"
| "retry_open ex (OpenFail # es) = (Return None, ex, es)"
| "retry_open ex (OpenOk fd seek # es) = (Return (Some (int fd, seek)), ex, es)"

text \<open>\<open>openLogFile\<close>: return value and \<open>*flag\<close>. \<open>O_CREAT\<close> makes a missing file empty.\<close>

definition openLogFile :: "Sensor_t \<Rightarrow> log_state \<Rightarrow> (int \<times> byte) io \<times> log_state" where
  "openLogFile fr s =
     (let (filename, result) =
            snprintf FILENAME_SIZE (filepath @ s_name fr @ filename_extension)
      in if result \<ge> int FILENAME_SIZE then (Return (-1, 0), s)
         else case retry_open (ls_exit s) (ls_opens s) of
           (Blocked, ex, es) \<Rightarrow> (Blocked, s\<lparr>ls_exit := ex, ls_opens := es\<rparr>)
         | (Return None, ex, es) \<Rightarrow> (Return (-1, 0), s\<lparr>ls_exit := ex, ls_opens := es\<rparr>)
         | (Return (Some (fd, seek)), ex, es) \<Rightarrow>
             let text = file_text (ls_files s) filename;
                 s1 = act [Acquire (ResFd fd)]
                   (s\<lparr>ls_exit := ex, ls_opens := es, ls_files := (ls_files s)(filename \<mapsto> text),
                      ls_fds := (ls_fds s)(fd \<mapsto> filename)\<rparr>)
             in if \<not> seek then (Return (-1, 0), log_close fd s1)
                else (Return (fd, if length text = 0 then 1 else 0), s1))"

text \<open>\<open>writeFrameData\<close> on an open descriptor: \<open>O_APPEND\<close> puts the bytes at the end.\<close>

definition log_write ::
  "(int \<Rightarrow> int) \<Rightarrow> Sensor_t \<Rightarrow> byte \<Rightarrow> int \<Rightarrow> log_state \<Rightarrow> int io \<times> log_state" where
  "log_write tz fr flag fd s =
     (let (r, out, ws) =
            writeFrameData tz (s_data fr) (s_type fr) (s_timestamp fr) flag fd (ls_writes s)
      in (r, s\<lparr>ls_writes := ws,
            ls_files := (case ls_fds s fd of
               None \<Rightarrow> ls_files s
             | Some p \<Rightarrow> (ls_files s)(p \<mapsto> file_text (ls_files s) p @ out))\<rparr>))"

text \<open>
  The body of the loop after a complete frame: \<open>Some v\<close> when \<open>main\<close> returns \<open>v\<close>, \<open>None\<close>
  when the loop goes on.
\<close>

definition log_frame :: "(int \<Rightarrow> int) \<Rightarrow> Sensor_t \<Rightarrow> log_state \<Rightarrow> int option io \<times> log_state" where
  "log_frame tz fr s =
     (case openLogFile fr s of
        (Blocked, s1) \<Rightarrow> (Blocked, s1)
      | (Return (fd, flag), s1) \<Rightarrow>
          if fd = -1 then (Return (Some (-1)), act [Release (ResMq log_RX_MQ_NAME)] s1)
          else case log_write tz fr flag fd s1 of
            (Blocked, s2) \<Rightarrow> (Blocked, s2)
          | (Return r, s2) \<Rightarrow>
              if r = -1 then
                (Return (Some (-1)), log_close fd (act [Release (ResMq log_RX_MQ_NAME)] s2))
              else (Return None, log_close fd s2))"

function log_loop :: "(int \<Rightarrow> int) \<Rightarrow> frame_event list \<Rightarrow> log_state \<Rightarrow> int io \<times> log_state" where
  "log_loop tz evs s =
     (if ls_exit s then (Return 0, act [Release (ResMq log_RX_MQ_NAME)] s)
      else case log_receiveFrame (ls_exit s) evs of
        (Blocked, ex, es) \<Rightarrow> (Blocked, s\<lparr>ls_exit := ex\<rparr>)
      | (Return (len, fr), ex, es) \<Rightarrow>
          let s1 = s\<lparr>ls_exit := ex\<rparr> in
          if len = -1 then (Return (-1), act [Release (ResMq log_RX_MQ_NAME)] s1)
          else if len \<noteq> int sizeof_Sensor_t then log_loop tz es s1
          else (case log_frame tz (the fr) s1 of
                  (Blocked, s2) \<Rightarrow> (Blocked, s2)
                | (Return (Some v), s2) \<Rightarrow> (Return v, s2)
                | (Return None, s2) \<Rightarrow> log_loop tz es s2))"
  by pat_completeness auto
termination
  by (relation "measure (\<lambda>(tz, evs, s). length evs)") (auto dest: log_rx.rx_shrinks [OF sym])

declare log_loop.simps [simp del]

text \<open>
  \<open>ipc_init\<close>: \<open>mq_open\<close> succeeds or not, \<open>mq_getattr\<close> fails (\<open>None\<close>) or reports the
  message size.
\<close>

definition log_ipc_init :: "bool \<Rightarrow> int option \<Rightarrow> int \<times> sys_act list" where
  "log_ipc_init mq_open_ok msgsize =
     (if \<not> mq_open_ok then (-1, [])
      else case msgsize of
        None \<Rightarrow> (-1, [Acquire (ResMq log_RX_MQ_NAME)])
      | Some n \<Rightarrow>
          if n < 0 \<or> nat n < sizeof_Sensor_t then
            (-1, [Acquire (ResMq log_RX_MQ_NAME), Release (ResMq log_RX_MQ_NAME)])
          else (0, [Acquire (ResMq log_RX_MQ_NAME)]))"

definition log_main ::
  "init_results \<Rightarrow> bool \<Rightarrow> int option \<Rightarrow> (int \<Rightarrow> int) \<Rightarrow> frame_event list \<Rightarrow> process \<Rightarrow> log_state
    \<Rightarrow> init_outcome io \<times> log_state" where
  "log_main ini mq_open_ok msgsize tz evs p s =
     (case daemon_init ini p of
        (Exit v, _) \<Rightarrow> (Return (Exit v), s)
      | (Ret d, p1) \<Rightarrow>
          if d = -1 then (Return (Ret (-1)), s)
          else if fst (signals_init ini p1) = -1 then (Return (Ret (-1)), s)
          else let (i, acts) = log_ipc_init mq_open_ok msgsize in
          if i = -1 then (Return (Ret (-1)), act acts s)
          else (case log_loop tz evs (act acts s) of
                  (Blocked, s') \<Rightarrow> (Blocked, s')
                | (Return v, s') \<Rightarrow> (Return (Ret v), s')))"

section \<open>The abstract log\<close>

definition log_path :: "Sensor_t \<Rightarrow> string" where
  "log_path fr = filepath @ s_name fr @ filename_extension"

definition log_entry :: "(int \<Rightarrow> int) \<Rightarrow> Sensor_t \<Rightarrow> bool \<Rightarrow> string" where
  "log_entry tz fr new =
     (if new then the (frame_title (s_type fr)) else []) @
     stamp_text (the (localtime_r tz (tv_sec (s_timestamp fr)))) @ '' -> '' @
     join_fields (data_fields (s_type fr) (s_data fr)) @ [NEWLINE]"

text \<open>The first \<open>j\<close> characters of the entry of a frame, at the end of the file of its sensor.\<close>

definition add_partial ::
  "(int \<Rightarrow> int) \<Rightarrow> Sensor_t \<Rightarrow> nat \<Rightarrow> (string \<Rightarrow> string option) \<Rightarrow> string \<Rightarrow> string option" where
  "add_partial tz fr j files =
     (let old = file_text files (log_path fr)
      in files(log_path fr \<mapsto> old @ take j (log_entry tz fr (old = []))))"

definition add_entry ::
  "(int \<Rightarrow> int) \<Rightarrow> Sensor_t \<Rightarrow> (string \<Rightarrow> string option) \<Rightarrow> string \<Rightarrow> string option" where
  "add_entry tz fr files =
     (let old = file_text files (log_path fr)
      in files(log_path fr \<mapsto> old @ log_entry tz fr (old = [])))"

text \<open>Frames the processing daemon produces, with a date the calendar can represent.\<close>

definition loggable :: "(int \<Rightarrow> int) \<Rightarrow> Sensor_t \<Rightarrow> bool" where
  "loggable tz fr \<longleftrightarrow> supported (s_type fr) \<and> length (s_name fr) < SENSOR_NAME_SIZE \<and>
     localtime_r tz (tv_sec (s_timestamp fr)) \<noteq> None"

section \<open>One frame\<close>

lemma log_close_simps [simp]:
  "ls_files (log_close fd s) = ls_files s" "ls_exit (log_close fd s) = ls_exit s"
  "ls_opens (log_close fd s) = ls_opens s" "ls_writes (log_close fd s) = ls_writes s"
  "ls_acts (log_close fd s) = ls_acts s @ [Release (ResFd fd)]"
  by (simp_all add: log_close_def)

lemma file_name_fits:
  "length (s_name fr) < SENSOR_NAME_SIZE \<Longrightarrow>
   snprintf FILENAME_SIZE (filepath @ s_name fr @ filename_extension) =
     (log_path fr, int (length (log_path fr))) \<and> length (log_path fr) < FILENAME_SIZE"
  by (simp add: log_path_def snprintf_def log_name_defs SENSOR_NAME_SIZE_def)

lemma openLogFile_eq:
  assumes "length (s_name fr) < SENSOR_NAME_SIZE"
  shows "openLogFile fr s =
    (case retry_open (ls_exit s) (ls_opens s) of
       (Blocked, ex, es) \<Rightarrow> (Blocked, s\<lparr>ls_exit := ex, ls_opens := es\<rparr>)
     | (Return None, ex, es) \<Rightarrow> (Return (-1, 0), s\<lparr>ls_exit := ex, ls_opens := es\<rparr>)
     | (Return (Some (fd, seek)), ex, es) \<Rightarrow>
         let old = file_text (ls_files s) (log_path fr);
             s1 = act [Acquire (ResFd fd)]
               (s\<lparr>ls_exit := ex, ls_opens := es, ls_files := (ls_files s)(log_path fr \<mapsto> old),
                  ls_fds := (ls_fds s)(fd \<mapsto> log_path fr)\<rparr>)
         in if \<not> seek then (Return (-1, 0), log_close fd s1)
            else (Return (fd, if old = [] then 1 else 0), s1))"
  unfolding openLogFile_def file_name_fits [OF assms, THEN conjunct1]
  using file_name_fits [OF assms] by (auto simp: Let_def split: prod.splits io.splits option.splits)

lemma retry_open_fd: "retry_open ex opens = (Return (Some (fd, seek)), ex', es) \<Longrightarrow> 0 \<le> fd"
  by (induction ex opens rule: retry_open.induct) (auto simp: Let_def split: if_splits)

lemma add_partial_created:
  "files(log_path fr \<mapsto> file_text files (log_path fr)) = add_partial tz fr 0 files"
  by (simp add: add_partial_def Let_def)

text \<open>Writing an entry to the file just opened.\<close>

lemma log_write_entry:
  assumes "loggable tz fr" "0 \<le> fd" "ls_fds s fd = Some (log_path fr)"
    and "ls_files s = files(log_path fr \<mapsto> file_text files (log_path fr))"
    and "log_write tz fr (if file_text files (log_path fr) = [] then 1 else 0) fd s = (r, s')"
  shows "\<exists>j. ls_files s' = add_partial tz fr j files \<and>
    (r = Return 0 \<longrightarrow> ls_files s' = add_entry tz fr files)"
    and "r \<in> {Return 0, Return (-1), Blocked}"
proof -
  define old where "old = file_text files (log_path fr)"
  define flag :: byte where "flag = (if old = [] then 1 else 0)"
  obtain info where info: "localtime_r tz (tv_sec (s_timestamp fr)) = Some info"
    using assms(1) by (auto simp: loggable_def)
  obtain out ws where w: "writeFrameData tz (s_data fr) (s_type fr) (s_timestamp fr) flag fd
      (ls_writes s) = (r, out, ws)"
    and s': "ls_files s' = files(log_path fr \<mapsto> old @ out)"
    using assms(3-5) by (auto simp: log_write_def Let_def flag_def old_def file_text_def split: prod.splits)
  have "(flag = 1) = (old = [])" by (simp add: flag_def)
  then have entry: "(if flag = 1 then the (frame_title (s_type fr)) else []) @ stamp_text info @
      '' -> '' @ data_text (s_type fr) (s_data fr) @ [NEWLINE] = log_entry tz fr (old = [])"
    by (simp add: log_entry_def info)
  have "supported (s_type fr)" using assms(1) by (simp add: loggable_def)
  from writeFrameData_prefix [OF this assms(2) info w, unfolded Let_def entry]
  obtain k where "out = take k (log_entry tz fr (old = []))"
    and "r = Return 0 \<longleftrightarrow> out = log_entry tz fr (old = [])" by blast
  then have "ls_files s' = add_partial tz fr k files \<and>
      (r = Return 0 \<longrightarrow> ls_files s' = add_entry tz fr files)"
    unfolding s' add_partial_def add_entry_def Let_def old_def [symmetric] by (metis (no_types))
  then show "\<exists>j. ls_files s' = add_partial tz fr j files \<and>
      (r = Return 0 \<longrightarrow> ls_files s' = add_entry tz fr files)" by blast
  show "r \<in> {Return 0, Return (-1), Blocked}"
    using writeFrameData_results w by (metis fst_conv)
qed

lemma log_frame_files:
  assumes "loggable tz fr" "log_frame tz fr s = (r, s')"
  shows "(r = Return None \<longrightarrow> ls_files s' = add_entry tz fr (ls_files s)) \<and>
    (ls_files s' = ls_files s \<or> (\<exists>j. ls_files s' = add_partial tz fr j (ls_files s)))"
proof -
  have nm: "length (s_name fr) < SENSOR_NAME_SIZE" using assms(1) by (simp add: loggable_def)
  obtain ro ex es where ro: "retry_open (ls_exit s) (ls_opens s) = (ro, ex, es)"
    by (metis prod_cases3)
  show ?thesis
  proof (cases "\<exists>fd. ro = Return (Some (fd, True))")
    case True
    then obtain fd where fd: "ro = Return (Some (fd, True))" by blast
    have pos: "0 \<le> fd" using retry_open_fd ro fd by simp
    define s1 where "s1 =
      s\<lparr>ls_exit := ex, ls_opens := es,
        ls_files := (ls_files s)(log_path fr \<mapsto> file_text (ls_files s) (log_path fr)),
        ls_fds := (ls_fds s)(fd \<mapsto> log_path fr), ls_acts := ls_acts s @ [Acquire (ResFd fd)]\<rparr>"
    define flag :: byte where "flag = (if file_text (ls_files s) (log_path fr) = [] then 1 else 0)"
    obtain w s2 where w: "log_write tz fr flag fd s1 = (w, s2)" by fastforce
    have s1: "ls_fds s1 fd = Some (log_path fr)"
      "ls_files s1 = (ls_files s)(log_path fr \<mapsto> file_text (ls_files s) (log_path fr))"
      by (simp_all add: s1_def)
    have run: "log_frame tz fr s = (case w of Blocked \<Rightarrow> (Blocked, s2)
        | Return v \<Rightarrow> if v = -1 then
            (Return (Some (-1)), log_close fd (act [Release (ResMq log_RX_MQ_NAME)] s2))
          else (Return None, log_close fd s2))"
      using pos w unfolding log_frame_def openLogFile_eq [OF nm] ro fd
      by (simp add: Let_def flip: s1_def flag_def)
    from log_write_entry [OF assms(1) pos s1 w [unfolded flag_def]] run assms(2)
    show ?thesis by (auto split: if_splits)
  next
    case False
    with assms(2) have "r \<noteq> Return None \<and> (ls_files s' = ls_files s \<or>
        ls_files s' = (ls_files s)(log_path fr \<mapsto> file_text (ls_files s) (log_path fr)))"
      unfolding log_frame_def openLogFile_eq [OF nm] ro
      by (auto simp: Let_def split: io.splits option.splits if_splits)
    then show ?thesis unfolding add_partial_created [of "ls_files s" fr tz] by blast
  qed
qed

section \<open>Runs\<close>

text \<open>The complete frames among the events.\<close>

fun frames_in :: "frame_event list \<Rightarrow> Sensor_t list" where
  "frames_in [] = []"
| "frames_in (FrameMsg n fr # es) = (if n = sizeof_Sensor_t then fr # frames_in es else frames_in es)"
| "frames_in (_ # es) = frames_in es"

text \<open>A log that a run may leave: some frames complete, at most one more in part.\<close>

definition partial_log ::
  "(int \<Rightarrow> int) \<Rightarrow> Sensor_t list \<Rightarrow> (string \<Rightarrow> string option) \<Rightarrow> (string \<Rightarrow> string option) \<Rightarrow> bool" where
  "partial_log tz frs files files' \<longleftrightarrow>
     (\<exists>k. files' = fold (add_entry tz) (take k frs) files \<or>
        (k < length frs \<and>
         (\<exists>j. files' = add_partial tz (frs ! k) j (fold (add_entry tz) (take k frs) files))))"

lemma partial_log_refl: "partial_log tz frs files files"
  unfolding partial_log_def by (intro exI [of _ 0]) simp

lemma partial_log_now: "partial_log tz (fr # frs) files (add_partial tz fr j files)"
  unfolding partial_log_def by (intro exI [of _ 0]) auto

lemma partial_log_Cons:
  "partial_log tz frs (add_entry tz fr files) files' \<Longrightarrow> partial_log tz (fr # frs) files files'"
  unfolding partial_log_def by (elim exE, rule_tac x = "Suc k" in exI) simp

text \<open>What \<open>receiveFrame\<close> takes from the events.\<close>

lemma log_receiveFrame_frames:
  assumes "log_receiveFrame ex evs = (Return (len, fr), ex', es)"
  shows "set (frames_in es) \<subseteq> set (frames_in evs) \<and>
    (len = int sizeof_Sensor_t \<longrightarrow> frames_in evs = the fr # frames_in es) \<and>
    (len \<noteq> int sizeof_Sensor_t \<longrightarrow> frames_in evs = frames_in es \<or> len = -1)"
  using assms
proof (induction ex evs rule: log_receiveFrame.induct)
  case (1 ex evs)
  have wait: "mq_wait ex0 evs0 = (Return v, ex1, es1) \<Longrightarrow>
      frames_in evs0 = (case v of GotFrame n f \<Rightarrow> if n = sizeof_Sensor_t then f # frames_in es1
        else frames_in es1 | _ \<Rightarrow> frames_in es1)" for ex0 evs0 v ex1 es1
    by (induction ex0 evs0 rule: mq_wait.induct) auto
  obtain w ex1 es1 where w: "mq_wait ex evs = (w, ex1, es1)" by (metis prod_cases3)
  show ?case
  proof (cases w)
    case (Return v)
    with "1.prems" "1.IH" [OF w [symmetric]] wait w show ?thesis
      by (subst (asm) log_receiveFrame.simps) (fastforce split: frame_recv.splits if_splits)
  qed (use "1.prems" w in \<open>subst (asm) log_receiveFrame.simps, simp\<close>)
qed

lemma log_loop_step:
  assumes "\<not> ls_exit s" "log_receiveFrame False evs = (Return (len, fr), ex, es)"
  shows "log_loop tz evs s =
    (let s1 = s\<lparr>ls_exit := ex\<rparr> in
     if len = -1 then (Return (-1), act [Release (ResMq log_RX_MQ_NAME)] s1)
     else if len \<noteq> int sizeof_Sensor_t then log_loop tz es s1
     else (case log_frame tz (the fr) s1 of
             (Blocked, s2) \<Rightarrow> (Blocked, s2)
           | (Return (Some v), s2) \<Rightarrow> (Return v, s2)
           | (Return None, s2) \<Rightarrow> log_loop tz es s2))"
  using assms by (subst log_loop.simps) (simp add: Let_def)

lemma log_loop_waits:
  "\<not> ls_exit s \<Longrightarrow> log_receiveFrame False evs = (Blocked, ex, es) \<Longrightarrow>
   log_loop tz evs s = (Blocked, s\<lparr>ls_exit := ex\<rparr>)"
  by (subst log_loop.simps) simp

lemma log_loop_partial:
  assumes "\<forall>fr \<in> set (frames_in evs). loggable tz fr"
  shows "partial_log tz (frames_in evs) (ls_files s) (ls_files (snd (log_loop tz evs s)))"
  using assms
proof (induction evs arbitrary: s rule: length_induct)
  case (1 evs)
  show ?case
  proof (cases "ls_exit s")
    case False
    obtain r ex es where rx: "log_receiveFrame False evs = (r, ex, es)" by (metis prod_cases3)
    show ?thesis
    proof (cases r)
      case Blocked
      with False rx show ?thesis by (simp add: log_loop_waits partial_log_refl)
    next
      case (Return lf)
      obtain len fr where lf: "lf = (len, fr)" by fastforce
      note rx = rx [unfolded Return lf]
      note fs = log_receiveFrame_frames [OF rx] and step = log_loop_step [OF False rx]
      define s1 where "s1 = s\<lparr>ls_exit := ex\<rparr>"
      have IH: "partial_log tz (frames_in es) (ls_files s') (ls_files (snd (log_loop tz es s')))" for s'
        using "1.IH" "1.prems" log_rx.rx_shrinks [OF rx] fs by blast
      consider "len = -1" | "len \<noteq> -1" "len \<noteq> int sizeof_Sensor_t" | "len = int sizeof_Sensor_t"
        by blast
      then show ?thesis
      proof cases
        case 1
        then show ?thesis by (simp add: step partial_log_refl)
      next
        case 2
        then have "frames_in evs = frames_in es" using fs by blast
        with 2 IH [of s1] show ?thesis by (simp add: step s1_def)
      next
        case 3
        then have evs: "frames_in evs = the fr # frames_in es" using fs by blast
        obtain r' s2 where lf': "log_frame tz (the fr) s1 = (r', s2)" by fastforce
        have "loggable tz (the fr)" using "1.prems" evs by simp
        note files = log_frame_files [OF this lf']
        have "partial_log tz (frames_in evs) (ls_files s) (ls_files s2)" if "r' \<noteq> Return None"
          using files evs partial_log_now partial_log_refl by (auto simp: s1_def)
        moreover have "partial_log tz (frames_in evs) (ls_files s) (ls_files (snd (log_loop tz es s2)))"
          if "r' = Return None"
          unfolding evs using files that IH [of s2] by (intro partial_log_Cons) (simp add: s1_def)
        ultimately show ?thesis
          using 3 lf' by (cases "r' = Return None") (auto simp: step s1_def split: io.split option.split)
      qed
    qed
  qed (subst log_loop.simps, simp add: partial_log_refl)
qed

section \<open>A willing environment\<close>

text \<open>The next \<open>n\<close> opens succeed and the writes accept whole lines.\<close>

definition willing :: "nat \<Rightarrow> log_state \<Rightarrow> bool" where
  "willing n s \<longleftrightarrow> \<not> ls_exit s \<and> n \<le> length (ls_opens s) \<and>
     list_all (\<lambda>e. case e of OpenOk fd seek \<Rightarrow> seek | _ \<Rightarrow> False) (ls_opens s) \<and>
     2 * n \<le> length (ls_writes s) \<and>
     list_all (\<lambda>e. case e of Sent k \<Rightarrow> WRITE_BUFFER_SIZE \<le> k | _ \<Rightarrow> False) (ls_writes s)"

lemma willing_write:
  assumes "list_all (\<lambda>e. case e of Sent k \<Rightarrow> WRITE_BUFFER_SIZE \<le> k | _ \<Rightarrow> False) (w # ws)"
    and "0 \<le> fd" "t \<noteq> []" "length t < WRITE_BUFFER_SIZE"
  shows "write_text fd t (w # ws) = (Return 0, t, ws)"
proof -
  from assms(1,4) obtain k where "w = Sent k" "length t \<le> k" by (auto split: send_event.splits)
  with assms(3) show ?thesis
    using log_sink.sink_sent [of t k ws]
    by (simp add: write_all_loop.simps [of "[]"] write_text_loop [OF assms(2,4)] less_le_trans [of 0 "length t" k])
qed

lemma willing_entry:
  assumes "loggable tz fr" "0 \<le> fd"
    and "list_all (\<lambda>e. case e of Sent k \<Rightarrow> WRITE_BUFFER_SIZE \<le> k | _ \<Rightarrow> False) (w1 # w2 # ws)"
  obtains out rest where "writeFrameData tz (s_data fr) (s_type fr) (s_timestamp fr) flag fd (w1 # w2 # ws) =
      (Return 0, out, rest)" "rest = ws \<or> rest = w2 # ws"
proof -
  have sup: "supported (s_type fr)" using assms(1) by (simp add: loggable_def)
  obtain info where info: "localtime_r tz (tv_sec (s_timestamp fr)) = Some info"
    using assms(1) by (auto simp: loggable_def)
  obtain title where title: "frame_title (s_type fr) = Some title"
    using sup frame_title_supported by blast
  define line where "line = stamp_text info @ '' -> '' @ data_text (s_type fr) (s_data fr) @ [NEWLINE]"
  have line: "line \<noteq> []" "length line < WRITE_BUFFER_SIZE"
    using localtime_stamp_length [OF info] data_text_length [of "s_type fr" "s_data fr"]
    by (simp_all add: line_def WRITE_BUFFER_SIZE_def)
  have ttl: "title \<noteq> []" "length title < WRITE_BUFFER_SIZE"
    using title frame_title_length by (cases "s_type fr", auto)
  have rest: "list_all (\<lambda>e. case e of Sent k \<Rightarrow> WRITE_BUFFER_SIZE \<le> k | _ \<Rightarrow> False) (w2 # ws)"
    using assms(3) by simp
  note eq = writeFrameData_eq [OF sup assms(2) info title, of "s_data fr" flag "w1 # w2 # ws",
      folded line_def]
  show thesis
  proof (cases "flag = 1")
    case True
    then show thesis
      using eq willing_write [OF assms(3,2) ttl] willing_write [OF rest assms(2) line]
      by (intro that [of "title @ line" ws]) simp_all
  next
    case False
    then show thesis
      using eq willing_write [OF assms(3,2) line] by (intro that [of line "w2 # ws"]) simp_all
  qed
qed

lemma willing_frame:
  assumes "loggable tz fr" "willing (Suc n) s"
  obtains s' where "log_frame tz fr s = (Return None, s')" "willing n s'"
proof -
  have nm: "length (s_name fr) < SENSOR_NAME_SIZE" using assms(1) by (simp add: loggable_def)
  obtain fd es where opens: "ls_opens s = OpenOk fd True # es" "\<not> ls_exit s"
    using assms(2) unfolding willing_def
    by (cases "ls_opens s") (auto split: open_event.splits)
  obtain w1 w2 ws where writes: "ls_writes s = w1 # w2 # ws"
    using assms(2) unfolding willing_def
    by (cases "ls_writes s"; cases "tl (ls_writes s)") auto
  have all: "list_all (\<lambda>e. case e of Sent k \<Rightarrow> WRITE_BUFFER_SIZE \<le> k | _ \<Rightarrow> False) (w1 # w2 # ws)"
    using assms(2) unfolding willing_def writes by blast
  define flag :: byte where "flag = (if file_text (ls_files s) (log_path fr) = [] then 1 else 0)"
  obtain out rest where w: "writeFrameData tz (s_data fr) (s_type fr) (s_timestamp fr) flag (int fd)
      (w1 # w2 # ws) = (Return 0, out, rest)" and rest: "rest = ws \<or> rest = w2 # ws"
    using willing_entry [OF assms(1) _ all] by (metis of_nat_0_le_iff)
  define s' where "s' = snd (log_frame tz fr s)"
  have "fst (log_frame tz fr s) = Return None \<and> ls_exit s' = False \<and> ls_opens s' = es \<and> ls_writes s' = rest"
    using opens w unfolding s'_def log_frame_def openLogFile_eq [OF nm] log_write_def
    by (simp add: Let_def writes flip: flag_def)
  moreover from this rest all assms(2) have "willing n s'"
    unfolding willing_def opens writes by auto
  ultimately show thesis using that by (metis prod.collapse s'_def)
qed

lemma willing_loop:
  assumes "\<forall>fr \<in> set frs. loggable tz fr" "willing (length frs) s"
  shows "\<exists>s'. log_loop tz (map (FrameMsg sizeof_Sensor_t) frs) s = (Blocked, s') \<and>
    ls_files s' = fold (add_entry tz) frs (ls_files s)"
  using assms
proof (induction frs arbitrary: s)
  case Nil
  then have "\<not> ls_exit s" by (simp add: willing_def)
  then show ?case by (simp add: log_loop_waits log_receiveFrame.simps)
next
  case (Cons fr frs)
  have rx: "log_receiveFrame False (map (FrameMsg sizeof_Sensor_t) (fr # frs)) =
      (Return (int sizeof_Sensor_t, Some fr), False, map (FrameMsg sizeof_Sensor_t) frs)"
    using log_rx.rx_delivers [of "[]" sizeof_Sensor_t fr] by simp
  have ex: "\<not> ls_exit s" and s: "s\<lparr>ls_exit := False\<rparr> = s"
    using Cons.prems(2) by (simp_all add: willing_def)
  obtain s' where s': "log_frame tz fr s = (Return None, s')" "willing (length frs) s'"
    using willing_frame [of tz fr "length frs" s] Cons.prems by auto
  have "ls_files s' = add_entry tz fr (ls_files s)"
    using log_frame_files [OF _ s'(1)] Cons.prems(1) by simp
  moreover have "log_loop tz (map (FrameMsg sizeof_Sensor_t) (fr # frs)) s =
      log_loop tz (map (FrameMsg sizeof_Sensor_t) frs) s'"
    unfolding log_loop_step [OF ex rx] by (simp add: s s'(1))
  ultimately show ?case using Cons.IH [OF _ s'(2)] Cons.prems(1) by simp
qed

section \<open>Descriptors\<close>

lemma openLogFile_ledger:
  assumes "openLogFile fr s = (Return (fd, flag), s')"
  shows "\<exists>acts. ls_acts s' = ls_acts s @ acts \<and>
    (if fd = -1 then held [] acts = Some [] else acts = [Acquire (ResFd fd)])"
  using assms unfolding openLogFile_def Let_def
  by (auto simp: log_close_def dest: retry_open_fd
      split: prod.splits if_splits io.splits option.splits)

lemma log_write_ledger: "ls_acts (snd (log_write tz fr flag fd s)) = ls_acts s"
  by (simp add: log_write_def Let_def split: prod.split)

lemma log_frame_ledger:
  assumes "log_frame tz fr s = (Return v, s')" "held [] (ls_acts s) = Some [ResMq log_RX_MQ_NAME]"
  shows "held [] (ls_acts s') = Some (if v = None then [ResMq log_RX_MQ_NAME] else [])"
proof -
  obtain fd flag s1 where o: "openLogFile fr s = (Return (fd, flag), s1)"
    using assms(1) by (auto simp: log_frame_def split: prod.splits io.splits)
  from openLogFile_ledger [OF o] obtain acts where acts: "ls_acts s1 = ls_acts s @ acts"
    "if fd = -1 then held [] acts = Some [] else acts = [Acquire (ResFd fd)]" by blast
  obtain w s2 where w: "log_write tz fr flag fd s1 = (w, s2)" by fastforce
  have "ls_acts s2 = ls_acts s1" using log_write_ledger [of tz fr flag fd s1] w by simp
  with assms o w acts show ?thesis
    by (auto simp: log_frame_def held_append split: if_splits io.splits)
qed

lemma log_loop_ledger:
  assumes "log_loop tz evs s = (Return v, s')" "held [] (ls_acts s) = Some [ResMq log_RX_MQ_NAME]"
  shows "held [] (ls_acts s') = Some []"
  using assms
proof (induction evs arbitrary: s rule: length_induct)
  case (1 evs)
  show ?case
  proof (cases "ls_exit s")
    case True
    with "1.prems" show ?thesis by (subst (asm) log_loop.simps) (auto simp: held_append)
  next
    case False
    obtain r ex es where rx: "log_receiveFrame False evs = (r, ex, es)" by (metis prod_cases3)
    with False "1.prems" obtain len fr where r: "r = Return (len, fr)"
      by (cases r) (auto simp: log_loop_waits)
    note rx = rx [unfolded r]
    define s1 where "s1 = s\<lparr>ls_exit := ex\<rparr>"
    have s1: "held [] (ls_acts s1) = Some [ResMq log_RX_MQ_NAME]"
      using "1.prems"(2) by (simp add: s1_def)
    note less = log_rx.rx_shrinks [OF rx]
    note IH = "1.IH" [rule_format, OF less]
    from "1.prems"(1) [unfolded log_loop_step [OF False rx]] s1 IH show ?thesis
      by (auto simp: held_append Let_def simp flip: s1_def dest: log_frame_ledger
          split: if_splits io.splits prod.splits option.splits)
  qed
qed

section \<open>Properties\<close>

definition example_frame :: Sensor_t where
  "example_frame = zero_sensor\<lparr>s_type := SENSOR_TYPE_TORQUE, s_id := 1, s_name := ''TORQS_0X1'',
     s_frame_type := SENSOR_DATA, s_timestamp := example_stamp\<rparr>"

definition example_log :: log_state where
  "example_log = \<lparr>ls_exit = False, ls_files = (\<lambda>_. None), ls_fds = (\<lambda>_. None),
     ls_opens = [OpenOk 4 True, OpenOk 4 True],
     ls_writes = [Sent 300, Sent 300, Sent 300, Sent 300], ls_acts = []\<rparr>"

lemma loggable_example: "loggable (\<lambda>_. 0) example_frame"
  using example_localtime
  by (simp add: loggable_def example_frame_def SENSOR_NAME_SIZE_def)

text \<open>
  C9: Crash consistency of the logs. In every run of the daemon's loop (any frames, signals,
  failing calls, short writes, an \<open>open\<close> that never returns) the files are those of the abstract
  log after some number of the received frames, in order, with at most one further entry in part,
  at the end of its file. No complete entry is ever lost, repeated or overwritten.
\<close>

theorem log_crash_consistent:
  assumes "\<forall>fr \<in> set (frames_in evs). loggable tz fr"
  shows "partial_log tz (frames_in evs) (ls_files s) (ls_files (snd (log_loop tz evs s)))"
  using assms by (rule log_loop_partial)

theorem log_crash_consistent_witness:
  "partial_log (\<lambda>_. 0) [example_frame] (\<lambda>_. None)
     (ls_files (snd (log_loop (\<lambda>_. 0) [FrameIntr 1, FrameMsg sizeof_Sensor_t example_frame, FrameFail]
        example_log)))"
  using log_crash_consistent [of "[FrameIntr 1, FrameMsg sizeof_Sensor_t example_frame, FrameFail]"
      "\<lambda>_. 0" example_log]
  by (simp add: loggable_example) (simp add: example_log_def)

text \<open>
  The daemon refines the abstract log: while \<open>open\<close> and \<open>write\<close> succeed, every frame
  delivered adds exactly its entry to the file of its sensor, with the title line when the file
  was empty, and the loop goes on waiting for the next frame.
\<close>

theorem log_records_frames:
  assumes "\<forall>fr \<in> set frs. loggable tz fr" "willing (length frs) s"
  shows "\<exists>s'. log_loop tz (map (FrameMsg sizeof_Sensor_t) frs) s = (Blocked, s') \<and>
    ls_files s' = fold (add_entry tz) frs (ls_files s)"
  using assms by (rule willing_loop)

theorem log_records_frames_witness:
  "\<exists>s'. log_loop (\<lambda>_. 0) (map (FrameMsg sizeof_Sensor_t) [example_frame, example_frame]) example_log =
     (Blocked, s') \<and> ls_files s' = fold (add_entry (\<lambda>_. 0)) [example_frame, example_frame] (\<lambda>_. None)"
proof -
  have "willing (length [example_frame, example_frame]) example_log"
    by (simp add: willing_def example_log_def WRITE_BUFFER_SIZE_def)
  from log_records_frames [OF _ this, of "\<lambda>_. 0"] show ?thesis
    by (simp add: loggable_example) (simp add: example_log_def)
qed



text \<open>
  C35: Resource safety of the logging daemon: when \<open>mq_getattr\<close> succeeds and \<open>main\<close> returns, on
  whatever path, the queue and every log file it opened have been closed exactly once.
\<close>

theorem log_main_releases_everything:
  assumes "log_main ini mq_open_ok (Some msgsize) tz evs p s = (Return v, s')" "ls_acts s = []"
  shows "held [] (ls_acts s') = Some []"
  using assms log_loop_ledger [of tz evs "act [Acquire (ResMq log_RX_MQ_NAME)] s"]
  by (auto simp: log_main_def log_ipc_init_def Let_def
      split: prod.splits init_outcome.splits io.splits if_splits)

theorem log_main_releases_everything_witness:
  "fst (log_main example_init True (Some 80) (\<lambda>_. 0) [FrameIntr SIGTERM] example_process example_log) =
     Return (Ret (-1)) \<and>
   held [] (ls_acts (snd (log_main example_init True (Some 80) (\<lambda>_. 0) [FrameIntr SIGTERM]
     example_process example_log))) = Some []"
proof -
  have "fst (log_main example_init True (Some 80) (\<lambda>_. 0) [FrameIntr SIGTERM] example_process example_log) =
     Return (Ret (-1))"
    by (simp add: log_main_def daemon_init_def example_init_def signals_init_def log_ipc_init_def
        log_loop.simps log_receiveFrame.simps example_log_def signalHandler_def)
  moreover then have "log_main example_init True (Some 80) (\<lambda>_. 0) [FrameIntr SIGTERM] example_process
      example_log = (Return (Ret (-1)), snd (log_main example_init True (Some 80) (\<lambda>_. 0)
        [FrameIntr SIGTERM] example_process example_log))"
    by (metis prod.collapse)
  ultimately show ?thesis
    using log_main_releases_everything by (simp add: example_log_def)
qed

text \<open>
  When \<open>mq_getattr\<close> fails, \<open>ipc_init\<close> of the logging daemon returns -1 without closing the
  queue it has opened (the other daemons close it): \<open>main\<close> returns with the queue still held.
\<close>

theorem log_getattr_leaks_queue:
  assumes "fst (daemon_init ini p) = Ret 0" "fst (signals_init ini (snd (daemon_init ini p))) = 0"
    and "ls_acts s = []"
  shows "log_main ini True None tz evs p s =
      (Return (Ret (-1)), s\<lparr>ls_acts := [Acquire (ResMq log_RX_MQ_NAME)]\<rparr>) \<and>
    held [] [Acquire (ResMq log_RX_MQ_NAME)] = Some [ResMq log_RX_MQ_NAME]"
  using assms by (auto simp: log_main_def log_ipc_init_def split: prod.splits)

theorem log_getattr_leaks_queue_witness:
  "log_main example_init True None (\<lambda>_. 0) [] example_process example_log =
     (Return (Ret (-1)), example_log\<lparr>ls_acts := [Acquire (ResMq log_RX_MQ_NAME)]\<rparr>)"
  using log_getattr_leaks_queue [of example_init example_process example_log "\<lambda>_. 0" "[]"]
  by (simp add: daemon_init_def example_init_def signals_init_def example_log_def)

end
