(* ===== verification/Registry.thy ===== *)
theory Registry
  imports Sense C_Double
begin

text \<open>
  The shared state of the telemetry daemon (\<open>src/telemetry_d.c\<close>): the growing array of
  sensors with its count, and the frame counter. The operations are the critical sections of the
  main loop and of the watchdog, each executed under \<open>registry_mutex\<close> and therefore atomic for
  the other threads. Memory from \<open>malloc\<close> and \<open>realloc\<close> has arbitrary contents, given as
  arguments. An access outside the allocated block is an outcome of its own (\<open>OutOfBounds\<close>), so
  that its absence is a theorem.

  The interface \<open>sensor_store\<close> is what the user threads rely on; \<open>tracks\<close> says what a registry
  knows of the frames received so far.
\<close>

section \<open>State\<close>

definition sensor_allocation_count :: nat where "sensor_allocation_count = 16"

record telemetry =
  sensor_registry :: "Sensor_t list"
  sensor_count :: nat
  sensor_reallocation :: nat
  throughput_frame_count :: u64

definition initial_telemetry :: "(nat \<Rightarrow> Sensor_t) \<Rightarrow> telemetry" where
  "initial_telemetry garbage =
     \<lparr>sensor_registry = map garbage [0..<sensor_allocation_count], sensor_count = 0,
      sensor_reallocation = 1, throughput_frame_count = 0\<rparr>"

section \<open>Critical sections of the main loop\<close>

text \<open>The first one: \<open>None\<close> when \<open>realloc\<close> was needed and failed.\<close>

definition grow_registry :: "(nat \<Rightarrow> Sensor_t) option \<Rightarrow> telemetry \<Rightarrow> telemetry option" where
  "grow_registry realloc t =
     (if sensor_count t \<ge> sensor_allocation_count * sensor_reallocation t \<and>
         sensor_count t < SENSORS_LIMIT_MAX
      then
        let doubled = sensor_reallocation t * 2;
            lim = SENSORS_LIMIT_MAX div sensor_allocation_count;
            new_reallocation = (if doubled > lim then lim else doubled)
        in case realloc of
             None \<Rightarrow> None
           | Some garbage \<Rightarrow>
               Some (t\<lparr>sensor_registry :=
                   take (sensor_allocation_count * new_reallocation) (sensor_registry t) @
                   map garbage [length (sensor_registry t)..<sensor_allocation_count * new_reallocation],
                   sensor_reallocation := new_reallocation\<rparr>)
      else Some t)"

text \<open>The frame counter has a mutex of its own.\<close>

definition count_frame :: "telemetry \<Rightarrow> telemetry" where
  "count_frame t = t\<lparr>throughput_frame_count := throughput_frame_count t + 1\<rparr>"

datatype record_outcome = Recorded | SensorUnsupported | RegistryFull | UpdateFailed | OutOfBounds

definition record_frame :: "Sensor_t \<Rightarrow> telemetry \<Rightarrow> record_outcome \<times> telemetry" where
  "record_frame fr t =
     (let (idx, flag) =
            sensorExists (Some fr) (Some (sensor_registry t)) (sensor_count t) (Some 0)
      in if idx < 0 then (SensorUnsupported, t)
         else if flag = Some 1 \<and> sensor_count t \<ge> SENSORS_LIMIT_MAX then (RegistryFull, t)
         else
           let t1 = (if flag = Some 1 then t\<lparr>sensor_count := Suc (sensor_count t)\<rparr> else t)
           in if nat idx \<ge> length (sensor_registry t1) then (OutOfBounds, t1)
              else case updateRegistry (Some fr) (Some (sensor_registry t1 ! nat idx)) of
                None \<Rightarrow> (UpdateFailed, t1)
              | Some s \<Rightarrow>
                  (Recorded, t1\<lparr>sensor_registry := (sensor_registry t1)[nat idx := s]\<rparr>))"

section \<open>The watchdog\<close>

definition elapsedSeconds :: "sensor_timespec_t \<Rightarrow> sensor_timespec_t \<Rightarrow> rat" where
  "elapsedSeconds prev cur = seconds_between (tv_sec cur - tv_sec prev) (tv_nsec cur - tv_nsec prev)"

definition sensor_activity_time :: rat where
  "sensor_activity_time = fl (of_int SENSOR_INACTIVE_SECS_MAX)"

definition wdt_state :: "sensor_timespec_t \<Rightarrow> Sensor_t \<Rightarrow> SensorState_e" where
  "wdt_state now s =
     (if elapsedSeconds (s_last_seen_time s) now \<ge> sensor_activity_time
      then SENSOR_OFFLINE else SENSOR_ONLINE)"

function wdt_loop :: "sensor_timespec_t \<Rightarrow> nat \<Rightarrow> nat \<Rightarrow> Sensor_t list \<Rightarrow> Sensor_t list" where
  "wdt_loop now count idx reg =
     (if idx < count then
        wdt_loop now count (Suc idx) (reg[idx := (reg ! idx)\<lparr>s_state := wdt_state now (reg ! idx)\<rparr>])
      else reg)"
  by pat_completeness auto
termination
  by (relation "measure (\<lambda>(now, count, idx, reg). count - idx)") auto

declare wdt_loop.simps [simp del]

text \<open>One pass of \<open>WDT_SensorHandler\<close>, with the clock read before the lock.\<close>

definition wdt_sweep :: "sensor_timespec_t \<Rightarrow> telemetry \<Rightarrow> telemetry" where
  "wdt_sweep now t =
     t\<lparr>sensor_registry := wdt_loop now (sensor_count t) 0 (sensor_registry t)\<rparr>"

lemma wdt_loop_length [simp]: "length (wdt_loop now count idx reg) = length reg"
  by (induction now count idx reg rule: wdt_loop.induct) (subst wdt_loop.simps, simp)

lemma wdt_loop_nth:
  "count \<le> length reg \<Longrightarrow> i < length reg \<Longrightarrow>
   wdt_loop now count idx reg ! i =
     (if idx \<le> i \<and> i < count then (reg ! i)\<lparr>s_state := wdt_state now (reg ! i)\<rparr> else reg ! i)"
proof (induction now count idx reg rule: wdt_loop.induct)
  case (1 now count idx reg)
  then show ?case
    by (subst wdt_loop.simps) (auto simp: nth_list_update not_less_eq_eq)
qed

section \<open>Well-formed registries\<close>

type_synonym sensor_key = "u16 \<times> SensorType_e"

definition key :: "Sensor_t \<Rightarrow> sensor_key" where
  "key s = (s_id s, s_type s)"

lemma same_sensor_key: "same_sensor a b \<longleftrightarrow> key a = key b"
  by (auto simp: key_def)

abbreviation used :: "telemetry \<Rightarrow> Sensor_t list" where
  "used t \<equiv> take (sensor_count t) (sensor_registry t)"

text \<open>
  The block has the size the program believes it has, a power of two times 16 up to 128; the count
  stays inside it; no sensor has two slots.
\<close>

definition registry_ok :: "telemetry \<Rightarrow> bool" where
  "registry_ok t \<longleftrightarrow>
     sensor_reallocation t \<in> {1, 2, 4, 8} \<and>
     length (sensor_registry t) = sensor_allocation_count * sensor_reallocation t \<and>
     sensor_count t \<le> length (sensor_registry t) \<and> distinct (map key (used t))"

text \<open>There is a slot for one more sensor, or the limit is reached.\<close>

definition has_room :: "telemetry \<Rightarrow> bool" where
  "has_room t \<longleftrightarrow> sensor_count t < length (sensor_registry t) \<or> sensor_count t = SENSORS_LIMIT_MAX"

definition registry_lookup :: "telemetry \<Rightarrow> sensor_key \<Rightarrow> Sensor_t option" where
  "registry_lookup t k = List.find (\<lambda>s. key s = k) (used t)"

lemmas registry_consts = sensor_allocation_count_def SENSORS_LIMIT_MAX_def

lemma registry_ok_limit: "registry_ok t \<Longrightarrow> sensor_count t \<le> SENSORS_LIMIT_MAX"
  by (auto simp: registry_ok_def registry_consts)

lemma registry_ok_le: "registry_ok t \<Longrightarrow> sensor_count t \<le> length (sensor_registry t)"
  by (simp add: registry_ok_def)

lemma initial_ok: "registry_ok (initial_telemetry g)"
  by (simp add: registry_ok_def initial_telemetry_def)

lemma grow_registry_ok:
  assumes "registry_ok t" "grow_registry realloc t = Some t'"
  shows "registry_ok t' \<and> has_room t' \<and> registry_lookup t' = registry_lookup t \<and>
    throughput_frame_count t' = throughput_frame_count t"
  using assms unfolding registry_ok_def
  by (auto simp: grow_registry_def has_room_def registry_consts Let_def registry_lookup_def fun_eq_iff
      split: if_splits option.splits)

section \<open>Looking up\<close>

lemma used_nth [simp]: "i < sensor_count t \<Longrightarrow> used t ! i = sensor_registry t ! i"
  by simp

lemma lookup_iff:
  assumes "registry_ok t"
  shows "registry_lookup t k = Some v \<longleftrightarrow>
    (\<exists>i < sensor_count t. sensor_registry t ! i = v \<and> key v = k)"
proof -
  have len: "length (used t) = sensor_count t" and dist: "distinct (map key (used t))"
    and le: "sensor_count t \<le> length (sensor_registry t)"
    using assms by (simp_all add: registry_ok_def)
  have "i = j" if "i < sensor_count t" "j < sensor_count t"
    "key (sensor_registry t ! i) = key (sensor_registry t ! j)" for i j
    using that dist le by (auto simp: distinct_conv_nth)
  then show ?thesis
    unfolding registry_lookup_def find_Some_iff len
    by (smt (verit) less_trans less_irrefl used_nth)
qed

lemma lookup_none:
  "registry_ok t \<Longrightarrow> registry_lookup t k = None \<longleftrightarrow>
   (\<forall>i < sensor_count t. key (sensor_registry t ! i) \<noteq> k)"
  using lookup_iff [of t k] by (metis not_None_eq)

lemma option_eq_iff: "(\<And>v. a = Some v \<longleftrightarrow> b = Some v) \<Longrightarrow> a = b"
  by (metis not_None_eq)

section \<open>Recording a frame, by cases\<close>

definition refresh :: "Sensor_t \<Rightarrow> Sensor_t \<Rightarrow> Sensor_t" where
  "refresh fr old = the (updateRegistry (Some fr) (Some old))"

lemma updateRegistry_refresh: "updateRegistry (Some fr) (Some old) = Some (refresh fr old)"
  by (simp add: refresh_def updateRegistry_def Let_def)

lemma refresh_simps [simp]:
  "s_id (refresh fr old) = s_id fr" "s_type (refresh fr old) = s_type fr"
  "key (refresh fr old) = key fr" "s_name (refresh fr old) = s_name fr"
  "s_last_seen_time (refresh fr old) = s_last_seen_time fr"
  "s_frame_type (refresh fr old) = s_frame_type fr" "s_state (refresh fr old) = SENSOR_ONLINE"
  "s_data (refresh fr old) = (if s_frame_type fr = SENSOR_DATA then s_data fr else s_data old)"
  "s_timestamp (refresh fr old) =
     (if s_frame_type fr = SENSOR_DATA then s_timestamp fr else s_timestamp old)"
  by (simp_all add: refresh_def updateRegistry_def Let_def key_def)

lemma record_frame_cases [consumes 2, case_names known new full]:
  assumes "registry_ok t" "has_room t"
  obtains
    (known) i where "i < sensor_count t" "key (sensor_registry t ! i) = key fr"
      "record_frame fr t = (Recorded, t\<lparr>sensor_registry :=
         (sensor_registry t)[i := refresh fr (sensor_registry t ! i)]\<rparr>)"
  | (new) "registry_lookup t (key fr) = None" "sensor_count t < length (sensor_registry t)"
      "sensor_count t < SENSORS_LIMIT_MAX"
      "record_frame fr t = (Recorded, t\<lparr>sensor_count := Suc (sensor_count t), sensor_registry :=
         (sensor_registry t)[sensor_count t := refresh fr (sensor_registry t ! sensor_count t)]\<rparr>)"
  | (full) "registry_lookup t (key fr) = None" "sensor_count t = SENSORS_LIMIT_MAX"
      "record_frame fr t = (RegistryFull, t)"
proof (cases rule: sensorExists_cases [of "sensor_count t" "sensor_registry t" fr 0])
  case (found i)
  then have "i < length (sensor_registry t)" using assms(1) by (simp add: registry_ok_def)
  with found show thesis
    by (intro known [of i]) (auto simp: key_def record_frame_def updateRegistry_refresh)
next
  case new': new
  then have none: "registry_lookup t (key fr) = None"
    using assms(1) by (auto simp: lookup_none key_def)
  show thesis
  proof (cases "sensor_count t = SENSORS_LIMIT_MAX")
    case True
    with none new' show thesis by (intro full) (simp_all add: record_frame_def)
  next
    case False
    with assms registry_ok_limit [OF assms(1)] none new' show thesis
      by (intro new) (auto simp: has_room_def record_frame_def updateRegistry_refresh)
  qed
qed

lemma record_frame_ok:
  assumes "registry_ok t" "has_room t" "record_frame fr t = (r, t')"
  shows "registry_ok t' \<and> r \<in> {Recorded, RegistryFull}"
  using assms(1,2)
proof (cases rule: record_frame_cases [where fr = fr])
  case (known i)
  then have "key (refresh fr (sensor_registry t ! i)) = key (sensor_registry t ! i)" by simp
  then have "map key (used t') = map key (used t)"
    using known assms(3) registry_ok_le [OF assms(1)]
    by (auto simp: nth_list_update intro!: nth_equalityI)
  then show ?thesis using known assms by (auto simp: registry_ok_def)
next
  case new
  have "used t' = used t @ [refresh fr (sensor_registry t ! sensor_count t)]"
    using new assms(3) by (auto simp: take_Suc_conv_app_nth)
  moreover have "key fr \<notin> set (map key (used t))"
    using new(1) by (auto simp: registry_lookup_def find_None_iff)
  ultimately show ?thesis using new assms by (auto simp: registry_ok_def)
next
  case full
  then show ?thesis using assms by simp
qed

lemma record_frame_other:
  assumes "registry_ok t" "has_room t" "record_frame fr t = (Recorded, t')" "k \<noteq> key fr"
  shows "registry_lookup t' k = registry_lookup t k"
proof (rule option_eq_iff)
  fix v
  have ok': "registry_ok t'" using record_frame_ok [OF assms(1-3)] by simp
  show "registry_lookup t' k = Some v \<longleftrightarrow> registry_lookup t k = Some v"
    unfolding lookup_iff [OF ok'] lookup_iff [OF assms(1)] using assms(1,2)
  proof (cases rule: record_frame_cases [where fr = fr])
    case (known i)
    with assms(3,4) show "(\<exists>j < sensor_count t'. sensor_registry t' ! j = v \<and> key v = k) \<longleftrightarrow>
        (\<exists>j < sensor_count t. sensor_registry t ! j = v \<and> key v = k)"
      using registry_ok_le [OF assms(1)] by (auto simp: nth_list_update)
  next
    case new
    with assms(3,4) show "(\<exists>j < sensor_count t'. sensor_registry t' ! j = v \<and> key v = k) \<longleftrightarrow>
        (\<exists>j < sensor_count t. sensor_registry t ! j = v \<and> key v = k)"
      by (auto simp: nth_list_update less_Suc_eq)
  qed (use assms(3) in simp)
qed

lemma record_frame_same:
  assumes "registry_ok t" "has_room t" "record_frame fr t = (Recorded, t')"
  shows "\<exists>old. registry_lookup t' (key fr) = Some (refresh fr old) \<and>
    (\<forall>v. registry_lookup t (key fr) = Some v \<longrightarrow> old = v)"
proof -
  have ok': "registry_ok t'" using record_frame_ok [OF assms] by simp
  from assms(1,2) show ?thesis
  proof (cases rule: record_frame_cases [where fr = fr])
    case (known i)
    have "registry_lookup t (key fr) = Some (sensor_registry t ! i)"
      using known by (auto simp: lookup_iff [OF assms(1)])
    moreover have "registry_lookup t' (key fr) = Some (refresh fr (sensor_registry t ! i))"
      unfolding lookup_iff [OF ok'] using known assms(3) registry_ok_le [OF assms(1)]
      by (auto intro!: exI [of _ i])
    ultimately show ?thesis by auto
  next
    case new
    have "registry_lookup t' (key fr) = Some (refresh fr (sensor_registry t ! sensor_count t))"
      unfolding lookup_iff [OF ok'] using new assms(3) by (auto intro!: exI [of _ "sensor_count t"])
    with new show ?thesis by auto
  qed (use assms(3) in simp)
qed

section \<open>The watchdog pass\<close>

lemma key_state [simp]: "key (s\<lparr>s_state := x\<rparr>) = key s"
  by (simp add: key_def)

lemma wdt_sweep_nth:
  "registry_ok t \<Longrightarrow> i < sensor_count t \<Longrightarrow>
   sensor_registry (wdt_sweep now t) ! i =
     (sensor_registry t ! i)\<lparr>s_state := wdt_state now (sensor_registry t ! i)\<rparr>"
  using registry_ok_le [of t] by (simp add: wdt_sweep_def wdt_loop_nth)

lemma wdt_sweep_simps [simp]:
  "sensor_count (wdt_sweep now t) = sensor_count t"
  "sensor_reallocation (wdt_sweep now t) = sensor_reallocation t"
  "throughput_frame_count (wdt_sweep now t) = throughput_frame_count t"
  "length (sensor_registry (wdt_sweep now t)) = length (sensor_registry t)"
  by (simp_all add: wdt_sweep_def)

lemma wdt_sweep_room [simp]: "has_room (wdt_sweep now t) = has_room t"
  by (simp add: has_room_def)

lemma wdt_sweep_ok: "registry_ok t \<Longrightarrow> registry_ok (wdt_sweep now t)"
proof -
  assume ok: "registry_ok t"
  then have "map key (used (wdt_sweep now t)) = map key (used t)"
    using registry_ok_le [OF ok] by (auto intro!: nth_equalityI simp: wdt_sweep_nth)
  with ok show ?thesis by (simp add: registry_ok_def)
qed

lemma wdt_sweep_lookup:
  assumes "registry_ok t"
  shows "registry_lookup (wdt_sweep now t) k =
    map_option (\<lambda>v. v\<lparr>s_state := wdt_state now v\<rparr>) (registry_lookup t k)"
proof (rule option_eq_iff)
  fix v
  have "registry_lookup (wdt_sweep now t) k = Some v \<longleftrightarrow> (\<exists>i < sensor_count t. \<exists>u.
      sensor_registry t ! i = u \<and> key u = k \<and> v = u\<lparr>s_state := wdt_state now u\<rparr>)"
    unfolding lookup_iff [OF wdt_sweep_ok [OF assms]] wdt_sweep_simps
    using wdt_sweep_nth [OF assms] by auto
  also have "\<dots> \<longleftrightarrow> (\<exists>u. registry_lookup t k = Some u \<and> v = u\<lparr>s_state := wdt_state now u\<rparr>)"
    unfolding lookup_iff [OF assms] by blast
  finally show "registry_lookup (wdt_sweep now t) k = Some v \<longleftrightarrow>
      map_option (\<lambda>v. v\<lparr>s_state := wdt_state now v\<rparr>) (registry_lookup t k) = Some v" by auto
qed

section \<open>The interface\<close>

text \<open>
  What a registry knows after the frames \<open>hist\<close>: a sensor is known exactly when a frame of it
  was received; its name, kind and time of last contact are those of its last frame, its data and
  time stamp those of its last data frame, when there was one.
\<close>

definition tracks :: "(sensor_key \<Rightarrow> Sensor_t option) \<Rightarrow> Sensor_t list \<Rightarrow> bool" where
  "tracks look hist \<longleftrightarrow>
     (\<forall>k. let fs = filter (\<lambda>f. key f = k) hist; ds = filter (\<lambda>f. s_frame_type f = SENSOR_DATA) fs in
        case look k of
          None \<Rightarrow> fs = []
        | Some v \<Rightarrow> fs \<noteq> [] \<and> key v = k \<and> s_name v = s_name (last fs) \<and>
            s_last_seen_time v = s_last_seen_time (last fs) \<and>
            s_frame_type v = s_frame_type (last fs) \<and>
            (ds = [] \<or> s_data v = s_data (last ds) \<and> s_timestamp v = s_timestamp (last ds)))"

locale sensor_store =
  fixes look :: "'s \<Rightarrow> sensor_key \<Rightarrow> Sensor_t option"
    and store :: "Sensor_t \<Rightarrow> 's \<Rightarrow> 's option"
    and sweep :: "sensor_timespec_t \<Rightarrow> 's \<Rightarrow> 's"
    and verdict :: "sensor_timespec_t \<Rightarrow> Sensor_t \<Rightarrow> SensorState_e"
    and good :: "'s \<Rightarrow> bool"
    and ready :: "'s \<Rightarrow> bool"
  assumes store_good: "good s \<Longrightarrow> ready s \<Longrightarrow> store fr s = Some s' \<Longrightarrow> good s'"
    and store_same: "good s \<Longrightarrow> ready s \<Longrightarrow> store fr s = Some s' \<Longrightarrow>
      \<exists>old. look s' (key fr) = Some (refresh fr old) \<and> (\<forall>v. look s (key fr) = Some v \<longrightarrow> old = v)"
    and store_other: "good s \<Longrightarrow> ready s \<Longrightarrow> store fr s = Some s' \<Longrightarrow> k \<noteq> key fr \<Longrightarrow>
      look s' k = look s k"
    and sweep_good: "good s \<Longrightarrow> good (sweep now s)"
    and sweep_ready: "ready s \<Longrightarrow> ready (sweep now s)"
    and sweep_look: "good s \<Longrightarrow>
      look (sweep now s) k = map_option (\<lambda>v. v\<lparr>s_state := verdict now v\<rparr>) (look s k)"
begin

lemma tracks_store:
  assumes "good s" "ready s" "store fr s = Some s'" "tracks (look s) hist"
  shows "tracks (look s') (hist @ [fr])"
  unfolding tracks_def
proof
  fix k
  obtain old where new: "look s' (key fr) = Some (refresh fr old)"
    and old: "\<And>v. look s (key fr) = Some v \<Longrightarrow> old = v"
    using store_same [OF assms(1-3)] by blast
  note k = assms(4) [unfolded tracks_def Let_def, rule_format, of k]
  show "let fs = filter (\<lambda>f. key f = k) (hist @ [fr]);
        ds = filter (\<lambda>f. s_frame_type f = SENSOR_DATA) fs in
      case look s' k of
        None \<Rightarrow> fs = []
      | Some v \<Rightarrow> fs \<noteq> [] \<and> key v = k \<and> s_name v = s_name (last fs) \<and>
          s_last_seen_time v = s_last_seen_time (last fs) \<and>
          s_frame_type v = s_frame_type (last fs) \<and>
          (ds = [] \<or> s_data v = s_data (last ds) \<and> s_timestamp v = s_timestamp (last ds))"
  proof (cases "k = key fr")
    case True
    with k new old show ?thesis
      by (cases "look s k") (auto simp: Let_def split: if_splits)
  next
    case False
    with k store_other [OF assms(1-3) False] show ?thesis by (simp add: Let_def)
  qed
qed

lemma tracks_sweep:
  assumes "good s" "tracks (look s) hist"
  shows "tracks (look (sweep now s)) hist"
  unfolding tracks_def
proof (rule allI, goal_cases)
  case (1 k)
  from assms(2) [unfolded tracks_def Let_def, rule_format, of k] show ?case
    by (cases "look s k") (simp_all add: Let_def sweep_look [OF assms(1)])
qed

lemma sweep_verdict:
  "good s \<Longrightarrow> look s k = Some v \<Longrightarrow> look (sweep now s) k = Some (v\<lparr>s_state := verdict now v\<rparr>)"
  by (simp add: sweep_look)

end

definition store_frame :: "Sensor_t \<Rightarrow> telemetry \<Rightarrow> telemetry option" where
  "store_frame fr t = (case record_frame fr t of (Recorded, t') \<Rightarrow> Some t' | _ \<Rightarrow> None)"

lemma store_frame_Some: "store_frame fr t = Some t' \<longleftrightarrow> record_frame fr t = (Recorded, t')"
  by (auto simp: store_frame_def split: prod.splits record_outcome.splits)

interpretation registry: sensor_store registry_lookup store_frame wdt_sweep wdt_state registry_ok has_room
proof
  fix t fr t' k now
  show "registry_ok t \<Longrightarrow> has_room t \<Longrightarrow> store_frame fr t = Some t' \<Longrightarrow> registry_ok t'"
    using record_frame_ok by (auto simp: store_frame_Some)
  show "registry_ok t \<Longrightarrow> has_room t \<Longrightarrow> store_frame fr t = Some t' \<Longrightarrow>
      \<exists>old. registry_lookup t' (key fr) = Some (refresh fr old) \<and>
        (\<forall>v. registry_lookup t (key fr) = Some v \<longrightarrow> old = v)"
    using record_frame_same by (auto simp: store_frame_Some)
  show "registry_ok t \<Longrightarrow> has_room t \<Longrightarrow> store_frame fr t = Some t' \<Longrightarrow> k \<noteq> key fr \<Longrightarrow>
      registry_lookup t' k = registry_lookup t k"
    using record_frame_other by (auto simp: store_frame_Some)
  show "registry_ok t \<Longrightarrow> registry_lookup (wdt_sweep now t) k =
      map_option (\<lambda>v. v\<lparr>s_state := wdt_state now v\<rparr>) (registry_lookup t k)"
    by (rule wdt_sweep_lookup)
qed (simp_all add: wdt_sweep_ok)

end
