(* ===== verification/Telemetry_Server.thy ===== *)
theory Telemetry_Server
  imports Measurement Registry Server
begin

text \<open>
  The user interface of the telemetry daemon (\<open>src/telemetry_d.c\<close>): reading requests from a
  TCP connection, answering them from a snapshot of the registry, closing. A user thread sees the
  shared state only under the mutex; what it sees at its \<open>k\<close>-th request is a parameter
  (\<open>uw_view\<close>), as are the results of \<open>malloc\<close> and of the clock.
\<close>

definition tel_SYNC_BYTE :: byte where "tel_SYNC_BYTE = 0xAA"
definition SELECTION_BYTE_GETALL :: byte where "SELECTION_BYTE_GETALL = 0xF6"
definition SELECTION_BYTE_GETTYPE :: byte where "SELECTION_BYTE_GETTYPE = 0xF7"
definition SELECTION_BYTE_GETID :: byte where "SELECTION_BYTE_GETID = 0xFB"
definition SELECTION_BYTE_GETTHROUGHPUT :: byte where "SELECTION_BYTE_GETTHROUGHPUT = 0xFC"
definition SELECTION_BYTE_GETONLINE :: byte where "SELECTION_BYTE_GETONLINE = 0xFD"
definition SELECTION_BYTE_GETOFFLINE :: byte where "SELECTION_BYTE_GETOFFLINE = 0xFE"
definition TRANSMIT_BUFFER_SIZE :: nat where "TRANSMIT_BUFFER_SIZE = 500"
definition RESPONSE_END_MARKER :: string where "RESPONSE_END_MARKER = ''END'' @ [NEWLINE]"

lemmas selection_defs = SELECTION_BYTE_GETALL_def SELECTION_BYTE_GETTYPE_def SELECTION_BYTE_GETID_def
  SELECTION_BYTE_GETTHROUGHPUT_def SELECTION_BYTE_GETONLINE_def SELECTION_BYTE_GETOFFLINE_def

section \<open>Socket loops\<close>

function tel_socket_recv ::
  "nat \<Rightarrow> byte list \<Rightarrow> rx_state \<Rightarrow> int io \<times> byte list \<times> rx_state" where
  "tel_socket_recv len got s =
     (if length got < len then
        (case recv (len - length got) s of
           (Blocked, s') \<Rightarrow> (Blocked, got, s')
         | (Return RecvEof, s') \<Rightarrow> (Return 0, got, s')
         | (Return RecvIntr, s') \<Rightarrow>
             (if rx_exit s' then (Return (-1), got, s') else tel_socket_recv len got s')
         | (Return RecvFail, s') \<Rightarrow> (Return (-1), got, s')
         | (Return (RecvBytes bs), s') \<Rightarrow> tel_socket_recv len (got @ bs) s')
      else (Return (int (length got)), got, s))"
  by pat_completeness auto
termination
  by (relation "measure (\<lambda>(len, got, s). rx_size s)") (auto dest: recv_size(2) [OF sym])

declare tel_socket_recv.simps [simp del]

interpretation tel_reader: socket_reader tel_socket_recv
  by unfold_locales (rule tel_socket_recv.simps)

text \<open>
  The sending loop of \<open>sendResponseEnd\<close>, \<open>giveSensor\<close> and \<open>giveSensorThroughput\<close>, with a
  moving pointer and a remaining length.
\<close>

fun send_loop :: "string \<Rightarrow> send_event list \<Rightarrow> int io \<times> string \<times> send_event list" where
  "send_loop [] evs = (Return 0, [], evs)"
| "send_loop (c # cs) [] = (Blocked, [], [])"
| "send_loop (c # cs) (SendIntr # es) = send_loop (c # cs) es"
| "send_loop (c # cs) (SendFail # es) = (Return (-1), [], es)"
| "send_loop (c # cs) (Sent n # es) =
     (if n = 0 then (Return (-1), [], es)
      else let bytes_sent = min n (length (c # cs));
               (r, out, rest) = send_loop (drop bytes_sent (c # cs)) es
           in (r, take bytes_sent (c # cs) @ out, rest))"

interpretation user_sink: byte_sink send_loop
proof
  fix buf :: string and n :: nat and evs
  assume *: "buf \<noteq> []" "0 < n"
  have "drop (min n (length buf)) buf = drop n buf" "take (min n (length buf)) buf = take n buf"
    by (simp_all add: min_def)
  with * show "send_loop buf (Sent n # evs) =
      (let (r, out, rest) = send_loop (drop n buf) evs in (r, take n buf @ out, rest))"
    by (cases buf) (simp_all add: Let_def del: drop_Suc_Cons take_Suc_Cons)
qed (auto simp: neq_Nil_conv)

section \<open>Responses\<close>

definition sendResponseEnd :: "send_event list \<Rightarrow> int io \<times> string \<times> send_event list" where
  "sendResponseEnd evs = send_loop RESPONSE_END_MARKER evs"

text \<open>
  The text \<open>giveSensor\<close> formats: for id 65000 the first eight bytes of the data as an
  \<open>int64_t\<close> and the last four as an \<open>int32_t\<close>.
\<close>

definition sensor_text :: "(int \<Rightarrow> int) \<Rightarrow> Sensor_t \<Rightarrow> string" where
  "sensor_text tz target =
     (if s_id target = 65000 then
        ''LATENCY: '' @ show_int (sint (le64 (word0 (s_data target)) (word4 (s_data target)))) @
        '' '' @ show_int (sint (word8 (s_data target))) @ [NEWLINE]
      else
        the (getTime tz target (Some [])) @ '': '' @ s_name target @ '': '' @
        the (getDataString target (Some [])) @ [NEWLINE])"

definition giveSensor ::
  "(int \<Rightarrow> int) \<Rightarrow> Sensor_t \<Rightarrow> send_event list \<Rightarrow> int io \<times> string \<times> send_event list" where
  "giveSensor tz target evs =
     (let (sendBuffer, result) = snprintf TRANSMIT_BUFFER_SIZE (sensor_text tz target)
      in if result < 0 \<or> result \<ge> int TRANSMIT_BUFFER_SIZE then (Return (-1), [], evs)
         else send_loop sendBuffer evs)"

text \<open>The loop over a snapshot, with the condition of the four variants.\<close>

fun give_loop ::
  "(Sensor_t \<Rightarrow> bool) \<Rightarrow> (int \<Rightarrow> int) \<Rightarrow> Sensor_t list \<Rightarrow> send_event list
    \<Rightarrow> int io \<times> string \<times> send_event list" where
  "give_loop sel tz [] evs = (Return 0, [], evs)"
| "give_loop sel tz (s # ss) evs =
     (if sel s then
        (case giveSensor tz s evs of
           (Blocked, out, rest) \<Rightarrow> (Blocked, out, rest)
         | (Return r, out, rest) \<Rightarrow>
             (if r = -1 then (Return (-1), out, rest)
              else let (r', out', rest') = give_loop sel tz ss rest in (r', out @ out', rest')))
      else give_loop sel tz ss evs)"

type_synonym user_result = "int io \<times> string \<times> send_event list \<times> sys_act list"

abbreviation snapshot_mem :: resource where "snapshot_mem \<equiv> ResMem ''snapshot''"

definition give_snapshot ::
  "(Sensor_t \<Rightarrow> bool) \<Rightarrow> (int \<Rightarrow> int) \<Rightarrow> bool \<Rightarrow> telemetry \<Rightarrow> send_event list \<Rightarrow> user_result" where
  "give_snapshot sel tz malloc_ok t evs =
     (let count = sensor_count t; alloc = (if count > 0 then [Acquire snapshot_mem] else []);
          dealloc = (if count > 0 then [Release snapshot_mem] else [])
      in if count > 0 \<and> \<not> malloc_ok then (Return (-1), [], evs, [])
         else case give_loop sel tz (take count (sensor_registry t)) evs of
           (Blocked, out, rest) \<Rightarrow> (Blocked, out, rest, alloc)
         | (Return r, out, rest) \<Rightarrow>
             (if r = -1 then (Return (-1), out, rest, alloc @ dealloc)
              else let (r', out', rest') = sendResponseEnd rest
                   in (r', out @ out', rest', alloc @ dealloc)))"

definition giveSensorAll_Offline where
  "giveSensorAll_Offline = give_snapshot (\<lambda>s. s_state s = SENSOR_OFFLINE)"

definition giveSensorAll_Online where
  "giveSensorAll_Online = give_snapshot (\<lambda>s. s_state s = SENSOR_ONLINE)"

definition giveSensorAll where
  "giveSensorAll = give_snapshot (\<lambda>s. True)"

definition giveSensorAll_Type ::
  "byte \<Rightarrow> (int \<Rightarrow> int) \<Rightarrow> bool \<Rightarrow> telemetry \<Rightarrow> send_event list \<Rightarrow> user_result" where
  "giveSensorAll_Type type_code tz malloc_ok t evs =
     (let ty = findSensorType type_code
      in if ty = SENSOR_TYPE_UNSUPPORTED then (Return (-1), [], evs, [])
         else give_snapshot (\<lambda>s. s_type s = ty) tz malloc_ok t evs)"

text \<open>
  The text of the throughput. The quotient is infinite or undefined when the two clock readings
  are equal; the sign printed for an undefined value is left out.
\<close>

definition throughput_text :: "u64 \<Rightarrow> rat \<Rightarrow> string" where
  "throughput_text frames_received elapsed_seconds =
     (let total_bits = fl (fl (fl (of_nat (unat frames_received)) * fl (of_nat sizeof_Sensor_t)) * 8);
          throughput_bps = fl (total_bits / elapsed_seconds)
      in ''THROUGHPUT: '' @
         (if elapsed_seconds = 0 then
            (if total_bits = 0 then ''nan Kbps'' else ''inf Mbps'')
          else if throughput_bps \<ge> 1000000 then
            show_fixed 2 (fl (throughput_bps / 1000000)) @ '' Mbps''
          else show_fixed 2 (fl (throughput_bps / 1000)) @ '' Kbps'') @ [NEWLINE])"

definition giveSensorThroughput ::
  "sensor_timespec_t option \<Rightarrow> sensor_timespec_t option \<Rightarrow> telemetry \<Rightarrow> telemetry \<Rightarrow> send_event list
    \<Rightarrow> user_result" where
  "giveSensorThroughput start_time end_time t_start t_end evs =
     (case (start_time, end_time) of
        (Some st, Some en) \<Rightarrow>
          (let frames_received = throughput_frame_count t_end - throughput_frame_count t_start;
               (response, result) =
                 snprintf 256 (throughput_text frames_received (elapsedSeconds st en))
           in if result < 0 \<or> result \<ge> 256 then (Return (-1), [], evs, [])
              else case send_loop response evs of
                (Blocked, out, rest) \<Rightarrow> (Blocked, out, rest, [])
              | (Return r, out, rest) \<Rightarrow>
                  (if r = -1 then (Return (-1), out, rest, [])
                   else let (r', out', rest') = sendResponseEnd rest in (r', out @ out', rest', [])))
      | _ \<Rightarrow> (Return (-1), [], evs, []))"

section \<open>One connection\<close>

record user_world =
  uw_view :: "nat \<Rightarrow> telemetry"
  uw_later :: "nat \<Rightarrow> telemetry"
  uw_malloc :: "nat \<Rightarrow> bool"
  uw_clock :: "nat \<Rightarrow> sensor_timespec_t option \<times> sensor_timespec_t option"
  uw_tz :: "int \<Rightarrow> int"

record user_conn =
  uc_rx :: rx_state
  uc_sends :: "send_event list"
  uc_out :: string
  uc_acts :: "sys_act list"

datatype user_end = UserDisconnected | UserRecvError | UserSendError | BadSelection | UserExit

function user_sync :: "byte \<Rightarrow> rx_state \<Rightarrow> user_end option io \<times> rx_state" where
  "user_sync sync_byte_data s =
     (if sync_byte_data \<noteq> tel_SYNC_BYTE then
        (case tel_socket_recv 1 [] s of
           (Blocked, _, s') \<Rightarrow> (Blocked, s')
         | (Return bytes_read, bs, s') \<Rightarrow>
             if bytes_read = 0 then (Return (Some UserDisconnected), s')
             else if bytes_read < 0 then (Return (Some UserRecvError), s')
             else user_sync (bs ! 0) s')
      else (Return None, s))"
  by pat_completeness auto
termination
  by (relation "measure (\<lambda>(b, s). rx_size s)")
    (auto dest!: tel_reader.reader_size [OF sym])

declare user_sync.simps [simp del]

text \<open>What a response does to the connection: bytes out, events used, a reason to stop.\<close>

definition respond :: "user_result \<Rightarrow> user_conn \<Rightarrow> user_end option io \<times> user_conn" where
  "respond res c =
     (case res of (r, out, rest, acts) \<Rightarrow>
        let c' = c\<lparr>uc_sends := rest, uc_out := uc_out c @ out, uc_acts := uc_acts c @ acts\<rparr>
        in (case r of
              Blocked \<Rightarrow> (Blocked, c')
            | Return v \<Rightarrow> (Return (if v = -1 then Some UserSendError else None), c')))"

text \<open>\<open>giveSensor(\<dots>) == -1 || sendResponseEnd(\<dots>) == -1\<close>.\<close>

definition give_one :: "(int \<Rightarrow> int) \<Rightarrow> Sensor_t \<Rightarrow> send_event list \<Rightarrow> user_result" where
  "give_one tz target evs =
     (case giveSensor tz target evs of
        (Blocked, out, rest) \<Rightarrow> (Blocked, out, rest, [])
      | (Return r, out, rest) \<Rightarrow>
          if r = -1 then (Return (-1), out, rest, [])
          else let (r', out', rest') = sendResponseEnd rest in (r', out @ out', rest', []))"

definition handle_request ::
  "user_world \<Rightarrow> nat \<Rightarrow> byte \<Rightarrow> user_conn \<Rightarrow> user_end option io \<times> user_conn" where
  "handle_request w k selection_byte c =
     (let t = uw_view w k; tz = uw_tz w; evs = uc_sends c in
      if selection_byte = SELECTION_BYTE_GETID then
        (case tel_socket_recv 2 [] (uc_rx c) of
           (Blocked, _, s) \<Rightarrow> (Blocked, c\<lparr>uc_rx := s\<rparr>)
         | (Return bytes_read, bs, s) \<Rightarrow>
             let c1 = c\<lparr>uc_rx := s\<rparr> in
             if bytes_read = 0 then (Return (Some UserDisconnected), c1)
             else if bytes_read < 0 then (Return (Some UserRecvError), c1)
             else
               let target_sensor = getSensor_ID (le16 (bs ! 0) (bs ! 1)) (Some (sensor_registry t)) (sensor_count t)
               in respond (give_one tz target_sensor evs) c1)
      else if selection_byte = SELECTION_BYTE_GETTYPE then
        (case tel_socket_recv 1 [] (uc_rx c) of
           (Blocked, _, s) \<Rightarrow> (Blocked, c\<lparr>uc_rx := s\<rparr>)
         | (Return bytes_read, bs, s) \<Rightarrow>
             let c1 = c\<lparr>uc_rx := s\<rparr> in
             if bytes_read = 0 then (Return (Some UserDisconnected), c1)
             else if bytes_read < 0 then (Return (Some UserRecvError), c1)
             else respond (giveSensorAll_Type (bs ! 0) tz (uw_malloc w k) t evs) c1)
      else if selection_byte = SELECTION_BYTE_GETONLINE then
        respond (giveSensorAll_Online tz (uw_malloc w k) t evs) c
      else if selection_byte = SELECTION_BYTE_GETOFFLINE then
        respond (giveSensorAll_Offline tz (uw_malloc w k) t evs) c
      else if selection_byte = SELECTION_BYTE_GETALL then
        respond (giveSensorAll tz (uw_malloc w k) t evs) c
      else if selection_byte = SELECTION_BYTE_GETTHROUGHPUT then
        respond (giveSensorThroughput (fst (uw_clock w k)) (snd (uw_clock w k)) t (uw_later w k) evs) c
      else (Return (Some BadSelection), c))"

lemma user_sync_size: "user_sync b s = (r, s') \<Longrightarrow> rx_size s' \<le> rx_size s"
proof (induction b s rule: user_sync.induct)
  case (1 b s)
  obtain r1 bs s1 where rd: "tel_socket_recv 1 [] s = (r1, bs, s1)" by (metis prod_cases3)
  note size = tel_reader.reader_size [OF rd]
  show ?case
  proof (cases "b \<noteq> tel_SYNC_BYTE \<and> (\<exists>n. r1 = Return n \<and> 0 < n)")
    case True
    then obtain n where "r1 = Return n" "0 < n" by blast
    with "1.IH" [OF _ rd [symmetric]] "1.prems" True rd size show ?thesis
      by (subst (asm) (2) user_sync.simps) force
  next
    case False
    with "1.prems" rd size show ?thesis
      by (subst (asm) user_sync.simps) (auto split: if_splits io.splits)
  qed
qed

lemma respond_rx [simp]: "respond res c = (r, c') \<Longrightarrow> uc_rx c' = uc_rx c"
  by (auto simp: respond_def Let_def split: prod.splits io.splits)

lemma handle_request_size: "handle_request w k b c = (r, c') \<Longrightarrow> rx_size (uc_rx c') \<le> rx_size (uc_rx c)"
  by (auto simp: handle_request_def Let_def dest!: respond_rx tel_reader.reader_size
      split: if_splits prod.splits io.splits)

function user_loop :: "user_world \<Rightarrow> nat \<Rightarrow> user_conn \<Rightarrow> user_end io \<times> user_conn" where
  "user_loop w k c =
     (if rx_exit (uc_rx c) then (Return UserExit, c)
      else case user_sync 0 (uc_rx c) of
        (Blocked, s) \<Rightarrow> (Blocked, c\<lparr>uc_rx := s\<rparr>)
      | (Return (Some e), s) \<Rightarrow> (Return e, c\<lparr>uc_rx := s\<rparr>)
      | (Return None, s) \<Rightarrow>
          (case tel_socket_recv 1 [] s of
             (Blocked, _, s1) \<Rightarrow> (Blocked, c\<lparr>uc_rx := s1\<rparr>)
           | (Return bytes_read, bs, s1) \<Rightarrow>
               let c1 = c\<lparr>uc_rx := s1\<rparr> in
               if bytes_read = 0 then (Return UserDisconnected, c1)
               else if bytes_read < 0 then (Return UserRecvError, c1)
               else (case handle_request w k (bs ! 0) c1 of
                       (Blocked, c2) \<Rightarrow> (Blocked, c2)
                     | (Return (Some e), c2) \<Rightarrow> (Return e, c2)
                     | (Return None, c2) \<Rightarrow> user_loop w (Suc k) c2)))"
  by pat_completeness auto
termination
  by (relation "measure (\<lambda>(w, k, c). rx_size (uc_rx c))")
    (auto dest!: user_sync_size [OF sym] tel_reader.reader_size [OF sym] handle_request_size [OF sym])

declare user_loop.simps [simp del]

text \<open>The thread: every way out of the loop closes the connection.\<close>

definition userHandler :: "int \<Rightarrow> user_world \<Rightarrow> user_conn \<Rightarrow> user_end io \<times> user_conn" where
  "userHandler client_fd w c =
     (let c0 = c\<lparr>uc_acts := uc_acts c @ [Release client_cell]\<rparr> in
      case user_loop w 0 c0 of
        (Blocked, c') \<Rightarrow> (Blocked, c')
      | (Return e, c') \<Rightarrow> (Return e, c'\<lparr>uc_acts := uc_acts c' @ [Release (ResFd client_fd)]\<rparr>))"

section \<open>Responses fit their buffers\<close>

abbreviation named :: "Sensor_t \<Rightarrow> bool" where
  "named s \<equiv> length (s_name s) < SENSOR_NAME_SIZE"

lemma named_zero [simp]: "named zero_sensor"
  by (simp add: zero_sensor_def SENSOR_NAME_SIZE_def)

lemma getTime_length: "length (the (getTime tz s (Some []))) \<le> 26"
  using localtime_stamp_length strftime_localtime
  by (auto simp: getTime_def INTER_BUF_SIZE_def split: option.splits)

lemma length_show_sint64: "length (show_int (sint (w :: u64))) \<le> 20"
proof -
  have "\<bar>sint w\<bar> \<le> 2 ^ 63"
    using sint_greater_eq [of w] sint_less [of w] by (simp add: abs_le_iff)
  then show ?thesis using length_show_int [of "sint w" 18] by simp
qed

lemma length_show_sint32: "length (show_int (sint (w :: u32))) \<le> 11"
  using length_show_int [of "sint w" 9] sint32_bounds [of w] by simp

lemma sensor_text_length:
  assumes "named s"
  shows "length (sensor_text tz s) < TRANSMIT_BUFFER_SIZE"
  using assms getTime_length [of tz s] data_text_length [of "s_type s" "s_data s"]
    length_show_sint64 [of "le64 (word0 (s_data s)) (word4 (s_data s))"]
    length_show_sint32 [of "word8 (s_data s)"]
  by (simp add: sensor_text_def getDataString_text TRANSMIT_BUFFER_SIZE_def SENSOR_NAME_SIZE_def)

lemma giveSensor_eq: "named s \<Longrightarrow> giveSensor tz s evs = send_loop (sensor_text tz s) evs"
  using sensor_text_length [of s tz] by (simp add: giveSensor_def snprintf_fits)

section \<open>A willing network\<close>

definition generous :: "nat \<Rightarrow> send_event list \<Rightarrow> bool" where
  "generous n evs \<longleftrightarrow> n \<le> length evs \<and>
     list_all (\<lambda>e. case e of Sent k \<Rightarrow> TRANSMIT_BUFFER_SIZE \<le> k | _ \<Rightarrow> False) evs"

lemma generous_le: "generous n evs \<Longrightarrow> m \<le> n \<Longrightarrow> generous m evs"
  by (simp add: generous_def)

lemma generous_send:
  assumes "generous (Suc n) evs" "t \<noteq> []" "length t \<le> TRANSMIT_BUFFER_SIZE"
  shows "\<exists>rest. send_loop t evs = (Return 0, t, rest) \<and> generous n rest"
proof -
  from assms(1) obtain k es where evs: "evs = Sent k # es" "TRANSMIT_BUFFER_SIZE \<le> k" "generous n es"
    by (cases evs) (auto simp: generous_def split: send_event.splits)
  moreover have "0 < k" using evs(2) by (simp add: TRANSMIT_BUFFER_SIZE_def)
  ultimately show ?thesis using assms(2,3) user_sink.sink_sent [of t k es] by simp
qed

lemma sensor_text_nonempty [simp]: "sensor_text tz s \<noteq> []"
  by (simp add: sensor_text_def)

lemma generous_give:
  "generous (Suc n) evs \<Longrightarrow> named s \<Longrightarrow>
   \<exists>rest. giveSensor tz s evs = (Return 0, sensor_text tz s, rest) \<and> generous n rest"
  using generous_send [of n evs "sensor_text tz s"] sensor_text_length [of s tz]
  by (simp add: giveSensor_eq)

lemma generous_end:
  "generous (Suc n) evs \<Longrightarrow> \<exists>rest. sendResponseEnd evs = (Return 0, RESPONSE_END_MARKER, rest) \<and> generous n rest"
  using generous_send [of n evs RESPONSE_END_MARKER]
  by (simp add: sendResponseEnd_def RESPONSE_END_MARKER_def TRANSMIT_BUFFER_SIZE_def)

lemma generous_give_loop:
  "generous (length (filter sel ss) + n) evs \<Longrightarrow> list_all named ss \<Longrightarrow>
   \<exists>rest. give_loop sel tz ss evs = (Return 0, concat (map (sensor_text tz) (filter sel ss)), rest) \<and>
     generous n rest"
proof (induction ss arbitrary: evs)
  case (Cons s ss)
  show ?case
  proof (cases "sel s")
    case True
    with Cons.prems obtain rest where g: "giveSensor tz s evs = (Return 0, sensor_text tz s, rest)"
      and r: "generous (length (filter sel ss) + n) rest"
      using generous_give [of "length (filter sel ss) + n" evs s tz] by auto
    from Cons.IH [OF r] Cons.prems(2) True g show ?thesis by auto
  qed (use Cons in auto)
qed simp

lemma generous_snapshot:
  assumes "generous (130 + n) evs" "list_all named (used t)" "sensor_count t \<le> SENSORS_LIMIT_MAX"
  shows "\<exists>rest acts. give_snapshot sel tz True t evs =
    (Return 0, concat (map (sensor_text tz) (filter sel (used t))) @ RESPONSE_END_MARKER, rest, acts) \<and>
    generous n rest \<and> held [] acts = Some []"
proof -
  have "length (filter sel (used t)) \<le> 128"
    using assms(3) length_filter_le [of sel "used t"] by (simp add: SENSORS_LIMIT_MAX_def)
  then have "generous (length (filter sel (used t)) + Suc n) evs"
    by (intro generous_le [OF assms(1)]) linarith
  from generous_give_loop [OF this assms(2)] obtain rest where
    l: "give_loop sel tz (used t) evs = (Return 0, concat (map (sensor_text tz) (filter sel (used t))), rest)"
    "generous (Suc n) rest" by blast
  from generous_end [OF l(2)] l(1) show ?thesis by (auto simp: give_snapshot_def Let_def)
qed

section \<open>Requests\<close>

datatype request = ReqId u16 | ReqType SensorType_e | ReqOnline | ReqOffline | ReqAll | ReqThroughput

fun request_args :: "request \<Rightarrow> byte list" where
  "request_args (ReqId i) = [SELECTION_BYTE_GETID, ucast i, ucast (drop_bit 8 i)]"
| "request_args (ReqType ty) = [SELECTION_BYTE_GETTYPE, type_byte ty]"
| "request_args ReqOnline = [SELECTION_BYTE_GETONLINE]"
| "request_args ReqOffline = [SELECTION_BYTE_GETOFFLINE]"
| "request_args ReqAll = [SELECTION_BYTE_GETALL]"
| "request_args ReqThroughput = [SELECTION_BYTE_GETTHROUGHPUT]"

definition encode_request :: "request \<Rightarrow> byte list" where
  "encode_request q = tel_SYNC_BYTE # request_args q"

fun valid_request :: "request \<Rightarrow> bool" where
  "valid_request (ReqType ty) = supported ty"
| "valid_request _ = True"

text \<open>The sensors a request asks for, in the order of the registry.\<close>

fun requested :: "telemetry \<Rightarrow> request \<Rightarrow> Sensor_t list" where
  "requested t (ReqId i) = [getSensor_ID i (Some (sensor_registry t)) (sensor_count t)]"
| "requested t (ReqType ty) = filter (\<lambda>s. s_type s = ty) (used t)"
| "requested t ReqOnline = filter (\<lambda>s. s_state s = SENSOR_ONLINE) (used t)"
| "requested t ReqOffline = filter (\<lambda>s. s_state s = SENSOR_OFFLINE) (used t)"
| "requested t ReqAll = used t"
| "requested t ReqThroughput = []"

text \<open>What is sent for it: the line of the throughput, or the lines of the sensors.\<close>

definition answer_body :: "user_world \<Rightarrow> nat \<Rightarrow> request \<Rightarrow> string" where
  "answer_body w k q =
     (if q = ReqThroughput then
        throughput_text (throughput_frame_count (uw_later w k) - throughput_frame_count (uw_view w k))
          (elapsedSeconds (the (fst (uw_clock w k))) (the (snd (uw_clock w k))))
      else concat (map (sensor_text (uw_tz w)) (requested (uw_view w k) q)))"

definition answer :: "user_world \<Rightarrow> nat \<Rightarrow> request \<Rightarrow> string" where
  "answer w k q = answer_body w k q @ RESPONSE_END_MARKER"

definition view_ok :: "telemetry \<Rightarrow> bool" where
  "view_ok t \<longleftrightarrow> sensor_count t \<le> length (sensor_registry t) \<and> sensor_count t \<le> SENSORS_LIMIT_MAX \<and>
     list_all named (used t)"

text \<open>What a user thread needs from its surroundings: memory for snapshots and a clock that advances.\<close>

definition world_ok :: "user_world \<Rightarrow> bool" where
  "world_ok w \<longleftrightarrow> (\<forall>k. view_ok (uw_view w k) \<and> uw_malloc w k \<and>
     (\<exists>st en. uw_clock w k = (Some st, Some en) \<and> 1 \<le> elapsedSeconds st en))"

lemma fl_bounds:
  assumes "0 \<le> x" "x \<le> b"
  shows "0 \<le> fl x" "fl x \<le> 2 * b"
proof -
  have "\<bar>x\<bar> / 2 ^ 53 \<le> \<bar>x\<bar>" by (simp add: divide_le_eq)
  with fl_error [of x] assms show "fl x \<le> 2 * b" by linarith
  show "0 \<le> fl x" using fl_sign [of x] assms(1) by linarith
qed

lemma show_fixed_2_length:
  assumes "0 \<le> x" "x \<le> 10 ^ 30"
  shows "length (show_fixed 2 x) \<le> 40"
proof -
  define n where "n = nat (round_even (\<bar>x\<bar> * 10 ^ 2))"
  have "of_int (round_even (\<bar>x\<bar> * 10 ^ 2)) \<le> \<bar>x\<bar> * 10 ^ 2 + 1 / 2"
    using round_even_error [of "\<bar>x\<bar> * 10 ^ 2"] by linarith
  also have "\<dots> < of_int (10 ^ 33)" using assms by simp
  finally have "n < 10 ^ 33" unfolding n_def of_int_less_iff by (simp add: nat_less_iff)
  then have "n div 10 ^ 2 < 10 ^ Suc 32" "n mod 10 ^ 2 < 10 ^ Suc 1"
    using div_le_dividend [of n "10 ^ 2"] by simp_all
  then have "length (show_base 10 (n div 10 ^ 2)) \<le> Suc 32" "length (show_base 10 (n mod 10 ^ 2)) \<le> Suc 1"
    by (intro length_show_base; simp)+
  then show ?thesis using assms(1) by (simp add: show_fixed_def n_def Let_def pad_left_def)
qed

lemma throughput_text_length:
  assumes "1 \<le> secs"
  shows "length (throughput_text frames secs) \<le> 60"
proof -
  define m where "m = unat frames"
  define f1 f2 f3 bps where defs: "f1 = fl (of_nat m)" "f2 = fl (f1 * 80)" "f3 = fl (f2 * 8)"
    "bps = fl (f3 / secs)"
  have "(of_nat m :: rat) \<le> of_nat (2 ^ 64)"
    unfolding of_nat_le_iff m_def using unsigned_less [of frames, where ?'a = nat] by simp
  then have f1: "0 \<le> f1" "f1 \<le> 2 ^ 65"
    using fl_bounds [of "of_nat m" "2 ^ 64"] by (simp_all add: defs)
  then have f2: "0 \<le> f2" "f2 \<le> 160 * 2 ^ 65"
    using fl_bounds [of "f1 * 80" "80 * 2 ^ 65"] by (simp_all add: defs)
  then have f3: "0 \<le> f3" "f3 \<le> 2560 * 2 ^ 65"
    using fl_bounds [of "f2 * 8" "1280 * 2 ^ 65"] by (simp_all add: defs)
  have "f3 / secs \<le> f3 / 1" using assms f3(1) by (intro divide_left_mono) simp_all
  then have bps: "0 \<le> bps" "bps \<le> 5120 * 2 ^ 65"
    using fl_bounds [of "f3 / secs" "2560 * 2 ^ 65"] assms f3 by (simp_all add: defs)
  have len: "length (show_fixed 2 (fl (bps / c))) \<le> 40" if "1 \<le> c" for c
  proof (rule show_fixed_2_length)
    have "bps / c \<le> bps / 1" using that bps(1) by (intro divide_left_mono) simp_all
    then show "0 \<le> fl (bps / c)" "fl (bps / c) \<le> 10 ^ 30"
      using fl_bounds [of "bps / c" "5120 * 2 ^ 65"] that bps by simp_all
  qed
  have "fl (of_int 80) = of_int 80" by (rule fl_of_int) simp
  then have "throughput_text frames secs = ''THROUGHPUT: '' @ (if bps \<ge> 1000000
      then show_fixed 2 (fl (bps / 1000000)) @ '' Mbps'' else show_fixed 2 (fl (bps / 1000)) @ '' Kbps'') @ [NEWLINE]"
    unfolding throughput_text_def Let_def defs m_def using assms by simp
  with len [of 1000000] len [of 1000] show ?thesis by simp
qed

lemma getSensor_ID_cases:
  assumes "sensor_count t \<le> length (sensor_registry t)"
  shows "getSensor_ID i (Some (sensor_registry t)) (sensor_count t) \<in> insert zero_sensor (set (used t))"
proof (cases "\<exists>k < sensor_count t. s_id (sensor_registry t ! k) = i")
  case True
  define k where "k = (LEAST k. k < sensor_count t \<and> s_id (sensor_registry t ! k) = i)"
  have k: "k < sensor_count t \<and> s_id (sensor_registry t ! k) = i"
    unfolding k_def by (rule LeastI_ex) (use True in blast)
  have "s_id (sensor_registry t ! j) \<noteq> i" if "j < k" for j
    using not_less_Least [of j "\<lambda>k. k < sensor_count t \<and> s_id (sensor_registry t ! k) = i"] that k
    by (auto simp: k_def)
  with k have "getSensor_ID i (Some (sensor_registry t)) (sensor_count t) = used t ! k"
    by (simp add: getSensor_ID_def getSensor_ID_loop_first [of 0 k])
  with k assms show ?thesis by (metis insertCI length_take min.absorb2 nth_mem)
next
  case False
  then show ?thesis by (simp add: getSensor_ID_def getSensor_ID_loop_none)
qed

text \<open>One request, its arguments at the front of the stream.\<close>

lemma handle_request_answers:
  assumes "valid_request q" "world_ok w" "rx_orderly (uc_rx c)"
    and "rx_stream (uc_rx c) = tl (request_args q) @ more_bytes" "generous (130 + n) (uc_sends c)"
  shows "\<exists>c'. handle_request w k (hd (request_args q)) c = (Return None, c') \<and>
    uc_out c' = uc_out c @ answer w k q \<and> rx_stream (uc_rx c') = more_bytes \<and> rx_orderly (uc_rx c') \<and>
    generous n (uc_sends c') \<and> (\<exists>acts. uc_acts c' = uc_acts c @ acts \<and> held [] acts = Some [])"
proof -
  let ?t = "uw_view w k"
  have v: "list_all named (used ?t)" "sensor_count ?t \<le> SENSORS_LIMIT_MAX"
    and le: "sensor_count ?t \<le> length (sensor_registry ?t)"
    using assms(2) by (simp_all add: world_ok_def view_ok_def)
  have m: "uw_malloc w k" using assms(2) by (simp add: world_ok_def)
  note snap = generous_snapshot [OF assms(5) v]
  note reads = tel_reader.reader_orderly [OF assms(3), of "[]"]
  show ?thesis
  proof (cases q)
    case (ReqId i)
    let ?target = "getSensor_ID i (Some (sensor_registry ?t)) (sensor_count ?t)"
    have "named ?target"
      using getSensor_ID_cases [OF le, of i] v(1) by (auto simp: list_all_iff)
    with generous_give [of "Suc n" "uc_sends c" ?target "uw_tz w"] generous_le [OF assms(5), of "Suc (Suc n)"]
    obtain rest where g: "giveSensor (uw_tz w) ?target (uc_sends c) = (Return 0, sensor_text (uw_tz w) ?target, rest)"
      "generous (Suc n) rest" by auto
    from generous_end [OF g(2)] obtain rest' where
      e: "sendResponseEnd rest = (Return 0, RESPONSE_END_MARKER, rest')" "generous n rest'" by blast
    from reads [of 2] assms(4) ReqId obtain s' where
      r: "tel_socket_recv 2 [] (uc_rx c) = (Return 2, [ucast i, ucast (drop_bit 8 i)], s')"
      "rx_stream s' = more_bytes" "rx_orderly s'" by (auto simp: eval_nat_numeral)
    from r g e ReqId show ?thesis
      by (simp add: handle_request_def Let_def respond_def answer_def answer_body_def give_one_def)
  next
    case (ReqType ty)
    with assms(1) have ty: "findSensorType (type_byte ty) = ty" "ty \<noteq> SENSOR_TYPE_UNSUPPORTED" by auto
    from reads [of 1] assms(4) ReqType obtain s' where
      r: "tel_socket_recv 1 [] (uc_rx c) = (Return 1, [type_byte ty], s')"
      "rx_stream s' = more_bytes" "rx_orderly s'" by auto
    from snap [of "\<lambda>s. s_type s = ty" "uw_tz w"] r ty ReqType m show ?thesis
      by (auto simp: handle_request_def Let_def respond_def answer_def answer_body_def selection_defs giveSensorAll_Type_def)
  next
    case ReqOnline
    with snap [of "\<lambda>s. s_state s = SENSOR_ONLINE" "uw_tz w"] assms(3,4) m show ?thesis
      by (auto simp: handle_request_def Let_def respond_def answer_def answer_body_def selection_defs giveSensorAll_Online_def)
  next
    case ReqOffline
    with snap [of "\<lambda>s. s_state s = SENSOR_OFFLINE" "uw_tz w"] assms(3,4) m show ?thesis
      by (auto simp: handle_request_def Let_def respond_def answer_def answer_body_def selection_defs giveSensorAll_Offline_def)
  next
    case ReqAll
    with snap [of "\<lambda>s. True" "uw_tz w"] assms(3,4) m show ?thesis
      by (auto simp: handle_request_def Let_def respond_def answer_def answer_body_def selection_defs giveSensorAll_def)
  next
    case ReqThroughput
    from assms(2) obtain st en where clk: "uw_clock w k = (Some st, Some en)" "1 \<le> elapsedSeconds st en"
      unfolding world_ok_def by blast
    let ?line = "throughput_text (throughput_frame_count (uw_later w k) - throughput_frame_count ?t) (elapsedSeconds st en)"
    have len: "length ?line \<le> 60" by (rule throughput_text_length [OF clk(2)])
    have "?line \<noteq> []" by (simp add: throughput_text_def Let_def)
    with generous_send [of "Suc n" "uc_sends c" ?line] generous_le [OF assms(5), of "Suc (Suc n)"] len
    obtain rest where g: "send_loop ?line (uc_sends c) = (Return 0, ?line, rest)" "generous (Suc n) rest"
      by (auto simp: TRANSMIT_BUFFER_SIZE_def)
    from generous_end [OF g(2)] obtain rest' where
      e: "sendResponseEnd rest = (Return 0, RESPONSE_END_MARKER, rest')" "generous n rest'" by blast
    from g e clk ReqThroughput len assms(3,4) show ?thesis
      by (simp add: handle_request_def Let_def respond_def answer_def answer_body_def selection_defs
          giveSensorThroughput_def snprintf_fits)
  qed
qed

section \<open>A conversation\<close>

text \<open>Bytes before the sync byte are skipped; without one the stream is read to its end.\<close>

lemma user_sync_skips:
  assumes "rx_orderly s" "b \<noteq> tel_SYNC_BYTE" "tel_SYNC_BYTE \<notin> set junk"
  shows "rx_stream s = junk @ tel_SYNC_BYTE # rest \<Longrightarrow>
      \<exists>s'. user_sync b s = (Return None, s') \<and> rx_stream s' = rest \<and> rx_orderly s'"
    and "rx_stream s = junk \<Longrightarrow> \<exists>s'. user_sync b s = (Return (Some UserDisconnected), s')"
proof -
  have one: "rx_stream s = x # xs \<Longrightarrow> rx_orderly s \<Longrightarrow>
      \<exists>s'. tel_socket_recv 1 [] s = (Return 1, [x], s') \<and> rx_stream s' = xs \<and> rx_orderly s'" for s x xs
    using tel_reader.reader_orderly [of s "[]" 1] by auto
  show "\<exists>s'. user_sync b s = (Return None, s') \<and> rx_stream s' = rest \<and> rx_orderly s'"
    if "rx_stream s = junk @ tel_SYNC_BYTE # rest"
    using assms that
  proof (induction junk arbitrary: b s)
    case Nil
    with one [of s tel_SYNC_BYTE rest] show ?case
      by (auto simp: user_sync.simps [of b] user_sync.simps [of tel_SYNC_BYTE])
  next
    case (Cons x junk)
    with one [of s x "junk @ tel_SYNC_BYTE # rest"] show ?case
      by (auto simp: user_sync.simps [of b])
  qed
  show "\<exists>s'. user_sync b s = (Return (Some UserDisconnected), s')" if "rx_stream s = junk"
    using assms that
  proof (induction junk arbitrary: b s)
    case Nil
    then have "\<exists>bs s'. tel_socket_recv 1 [] s = (Return 0, bs, s')"
      using tel_reader.reader_orderly [of s "[]" 1] by auto
    with Nil show ?case by (auto simp: user_sync.simps [of b])
  next
    case (Cons x junk)
    with one [of s x junk] show ?case by (auto simp: user_sync.simps [of b])
  qed
qed

lemma request_args_Cons: "request_args q = hd (request_args q) # tl (request_args q)"
  by (cases q) simp_all

definition requests_bytes :: "(byte list \<times> request) list \<Rightarrow> byte list \<Rightarrow> byte list" where
  "requests_bytes qs end_junk = concat (map (\<lambda>(junk, q). junk @ encode_request q) qs) @ end_junk"

fun answers :: "user_world \<Rightarrow> nat \<Rightarrow> request list \<Rightarrow> string" where
  "answers w k [] = []"
| "answers w k (q # qs) = answer w k q @ answers w (Suc k) qs"

lemma user_loop_answers:
  assumes "world_ok w"
    and "\<forall>(junk, q) \<in> set qs. tel_SYNC_BYTE \<notin> set junk \<and> valid_request q"
    and "tel_SYNC_BYTE \<notin> set end_junk" "rx_orderly (uc_rx c)"
    and "rx_stream (uc_rx c) = requests_bytes qs end_junk" "generous (130 * length qs) (uc_sends c)"
  shows "\<exists>c'. user_loop w k c = (Return UserDisconnected, c') \<and>
    uc_out c' = uc_out c @ answers w k (map snd qs) \<and>
    (\<exists>acts. uc_acts c' = uc_acts c @ acts \<and> held [] acts = Some [])"
  using assms(2-)
proof (induction qs arbitrary: k c)
  case Nil
  have zero: "(0 :: byte) \<noteq> tel_SYNC_BYTE" by (simp add: tel_SYNC_BYTE_def)
  from user_sync_skips(2) [OF Nil.prems(3) zero Nil.prems(2)] Nil.prems(3,4)
  show ?case
    by (subst user_loop.simps) (auto simp: requests_bytes_def rx_orderly_def)
next
  case (Cons jq qs)
  obtain junk q where jq: "jq = (junk, q)" by fastforce
  have zero: "(0 :: byte) \<noteq> tel_SYNC_BYTE" by (simp add: tel_SYNC_BYTE_def)
  have prem: "tel_SYNC_BYTE \<notin> set junk" "valid_request q" using Cons.prems(1) jq by auto
  define rest where "rest = requests_bytes qs end_junk"
  have "rx_stream (uc_rx c) = junk @ tel_SYNC_BYTE # request_args q @ rest"
    using Cons.prems(4) jq by (simp add: requests_bytes_def encode_request_def rest_def)
  from user_sync_skips(1) [OF Cons.prems(3) zero prem(1) this] obtain s where
    s: "user_sync 0 (uc_rx c) = (Return None, s)" "rx_stream s = request_args q @ rest" "rx_orderly s"
    by blast
  from tel_reader.reader_orderly [OF s(3), of "[]" 1] s(2) obtain s1 where
    s1: "tel_socket_recv 1 [] s = (Return 1, [hd (request_args q)], s1)"
    "rx_stream s1 = tl (request_args q) @ rest" "rx_orderly s1"
    by (subst (asm) (1 2 3) request_args_Cons) auto
  have "generous (130 + 130 * length qs) (uc_sends c)" using Cons.prems(5) by simp
  with handle_request_answers [where q = q and w = w and k = k and c = "c\<lparr>uc_rx := s1\<rparr>" and
      more_bytes = rest and n = "130 * length qs"] assms(1) prem(2) s1(2,3)
  obtain c2 where c2: "handle_request w k (hd (request_args q)) (c\<lparr>uc_rx := s1\<rparr>) = (Return None, c2)"
    "uc_out c2 = uc_out c @ answer w k q" "rx_stream (uc_rx c2) = rest" "rx_orderly (uc_rx c2)"
    "generous (130 * length qs) (uc_sends c2)"
    "\<exists>acts. uc_acts c2 = uc_acts c @ acts \<and> held [] acts = Some []" by auto
  have "user_loop w k c = user_loop w (Suc k) c2"
    using Cons.prems(3) s(1) s1(1) c2(1) by (subst user_loop.simps) (simp add: rx_orderly_def)
  moreover from Cons.IH [of c2 "Suc k"] Cons.prems(1,2) c2 obtain c' acts where
    "user_loop w (Suc k) c2 = (Return UserDisconnected, c')"
    "uc_out c' = uc_out c2 @ answers w (Suc k) (map snd qs)"
    "uc_acts c' = uc_acts c2 @ acts" "held [] acts = Some []" by (auto simp: rest_def)
  ultimately show ?case using c2(2,6) jq by (auto simp: held_append)
qed

section \<open>Closing\<close>

text \<open>A response that has been made leaves nothing behind.\<close>

definition clean :: "user_result \<Rightarrow> bool" where
  "clean res \<longleftrightarrow> (case res of (r, out, rest, acts) \<Rightarrow> r \<noteq> Blocked \<longrightarrow> held [] acts = Some [])"

lemma clean_snapshot: "clean (give_snapshot sel tz m t evs)"
  by (auto simp: clean_def give_snapshot_def Let_def split: prod.splits io.splits)

lemma clean_type: "clean (giveSensorAll_Type b tz m t evs)"
  using clean_snapshot by (simp add: giveSensorAll_Type_def Let_def) (simp add: clean_def)

lemma clean_one: "clean (give_one tz s evs)"
  by (auto simp: clean_def give_one_def Let_def split: prod.splits io.splits)

lemma clean_throughput: "clean (giveSensorThroughput st en t t' evs)"
  by (auto simp: clean_def giveSensorThroughput_def Let_def split: prod.splits io.splits option.splits)

lemmas clean_responses = clean_type clean_one clean_throughput
  clean_snapshot [where sel = "\<lambda>s. s_state s = SENSOR_OFFLINE", folded giveSensorAll_Offline_def]
  clean_snapshot [where sel = "\<lambda>s. s_state s = SENSOR_ONLINE", folded giveSensorAll_Online_def]
  clean_snapshot [where sel = "\<lambda>s. True", folded giveSensorAll_def]

abbreviation settled :: "user_conn \<Rightarrow> user_conn \<Rightarrow> bool" where
  "settled c c' \<equiv> \<exists>acts. uc_acts c' = uc_acts c @ acts \<and> held [] acts = Some []"

lemma respond_settled:
  assumes "respond res c0 = (Return e, c')" "clean res" "uc_acts c0 = uc_acts c"
  shows "settled c c'"
proof -
  obtain r out rest acts where res: "res = (r, out, rest, acts)" by (metis prod_cases4)
  with assms have "uc_acts c' = uc_acts c @ acts" "r \<noteq> Blocked"
    by (cases r; force simp: respond_def)+
  with assms(2) res show ?thesis by (simp add: clean_def)
qed

lemma handle_request_ledger:
  assumes "handle_request w k b c = (Return e, c')"
  shows "settled c c'"
proof -
  obtain r2 bs2 s2 where two: "tel_socket_recv 2 [] (uc_rx c) = (r2, bs2, s2)" by (metis prod_cases3)
  obtain r1 bs1 s1 where one: "tel_socket_recv 1 [] (uc_rx c) = (r1, bs1, s1)" by (metis prod_cases3)
  have none: "settled c (c\<lparr>uc_rx := s\<rparr>)" for s by simp
  have res: "settled c c'" if "respond res c0 = (Return e, c')" "uc_acts c0 = uc_acts c" "clean res" for res c0
    using respond_settled that by blast
  consider "b = SELECTION_BYTE_GETID" | "b = SELECTION_BYTE_GETTYPE" |
    "b \<notin> {SELECTION_BYTE_GETID, SELECTION_BYTE_GETTYPE}" by blast
  then show ?thesis
  proof cases
    case 1
    with assms two show ?thesis
      by (cases r2) (auto simp: handle_request_def Let_def split: if_splits intro: res [OF _ _ clean_one])
  next
    case 2
    with assms one show ?thesis
      by (cases r1) (auto simp: handle_request_def Let_def selection_defs split: if_splits
          intro: res [OF _ _ clean_type])
  next
    case 3
    then show ?thesis
      using assms res [OF _ refl] clean_responses by (auto simp: handle_request_def Let_def split: if_splits)
  qed
qed

lemma user_loop_ledger:
  assumes "user_loop w k c = (Return e, c')"
  shows "\<exists>acts. uc_acts c' = uc_acts c @ acts \<and> held [] acts = Some []"
  using assms
proof (induction c arbitrary: k rule: measure_induct_rule [where f = "\<lambda>c. rx_size (uc_rx c)"])
  case (less c)
  show ?case
  proof (cases "\<exists>s bs s1 n c2. \<not> rx_exit (uc_rx c) \<and> user_sync 0 (uc_rx c) = (Return None, s) \<and>
      tel_socket_recv 1 [] s = (Return n, bs, s1) \<and> 0 < n \<and>
      handle_request w k (bs ! 0) (c\<lparr>uc_rx := s1\<rparr>) = (Return None, c2)")
    case True
    then obtain s bs s1 n c2 where st: "\<not> rx_exit (uc_rx c)" "user_sync 0 (uc_rx c) = (Return None, s)"
      "tel_socket_recv 1 [] s = (Return n, bs, s1)" "0 < n"
      "handle_request w k (bs ! 0) (c\<lparr>uc_rx := s1\<rparr>) = (Return None, c2)" by blast
    then have "user_loop w (Suc k) c2 = (Return e, c')"
      using less.prems by (subst (asm) user_loop.simps) simp
    moreover have "rx_size (uc_rx c2) < rx_size (uc_rx c)"
      using user_sync_size [OF st(2)] tel_reader.reader_size [OF st(3)] st(4) handle_request_size [OF st(5)]
      by simp
    ultimately show ?thesis
      using less.IH handle_request_ledger [OF st(5)] by (fastforce simp: held_append)
  next
    case False
    obtain r s where sy: "user_sync 0 (uc_rx c) = (r, s)" by fastforce
    obtain r1 bs s1 where rd: "tel_socket_recv 1 [] s = (r1, bs, s1)" by (metis prod_cases3)
    obtain r2 c2 where hr: "handle_request w k (bs ! 0) (c\<lparr>uc_rx := s1\<rparr>) = (r2, c2)" by fastforce
    show ?thesis
      using less.prems False sy rd hr handle_request_ledger [of w k "bs ! 0" "c\<lparr>uc_rx := s1\<rparr>"]
      by (subst (asm) user_loop.simps)
        (fastforce simp: Let_def split: if_splits io.splits option.splits)
  qed
qed

section \<open>Properties\<close>

text \<open>
  A thread just started for descriptor \<open>fd\<close>: the peer sends \<open>cs\<close> in these chunks and closes.
\<close>

definition fresh_user :: "int \<Rightarrow> byte list list \<Rightarrow> send_event list \<Rightarrow> user_conn" where
  "fresh_user fd cs evs =
     \<lparr>uc_rx = \<lparr>rx_buf = [], rx_events = map Deliver cs @ [PeerClose], rx_exit = False\<rparr>,
      uc_sends = evs, uc_out = [], uc_acts = [Acquire client_cell, Acquire (ResFd fd)]\<rparr>"

text \<open>
  C10: The user interface answers every request. A client sends any sequence of requests, possibly
  with stray bytes between them, in any TCP chunks, and closes; while the network takes the
  responses, the thread sends for each request, in order, the line of every sensor asked for, from
  the registry as it is at that moment, and the end marker; then it closes the connection, frees
  its snapshots and ends.
\<close>

theorem user_requests_answered:
  assumes "world_ok w"
    and "\<forall>(junk, q) \<in> set qs. tel_SYNC_BYTE \<notin> set junk \<and> valid_request q"
    and "tel_SYNC_BYTE \<notin> set end_junk" "concat cs = requests_bytes qs end_junk"
    and "generous (130 * length qs) evs"
  shows "\<exists>c'. userHandler fd w (fresh_user fd cs evs) = (Return UserDisconnected, c') \<and>
    uc_out c' = answers w 0 (map snd qs) \<and> held [] (uc_acts c') = Some []"
proof -
  let ?c = "(fresh_user fd cs evs)\<lparr>uc_acts := uc_acts (fresh_user fd cs evs) @ [Release client_cell]\<rparr>"
  have "rx_orderly (uc_rx ?c)" "rx_stream (uc_rx ?c) = requests_bytes qs end_junk"
    "generous (130 * length qs) (uc_sends ?c)"
    using assms(4,5) by (simp_all add: fresh_user_def rx_orderly_def rx_stream_def)
  from user_loop_answers [OF assms(1-3) this, of 0] show ?thesis
    by (auto simp: userHandler_def fresh_user_def held_append)
qed

definition example_user_world :: user_world where
  "example_user_world = \<lparr>uw_view = \<lambda>_. initial_telemetry (\<lambda>_. zero_sensor),
     uw_later = \<lambda>_. initial_telemetry (\<lambda>_. zero_sensor), uw_malloc = \<lambda>_. True,
     uw_clock = \<lambda>_. (Some zero_timespec, Some (zero_timespec\<lparr>tv_sec := 10\<rparr>)), uw_tz = \<lambda>_. 0\<rparr>"

lemma example_world_ok: "world_ok example_user_world"
proof -
  have "elapsedSeconds zero_timespec (zero_timespec\<lparr>tv_sec := 10\<rparr>) \<ge> of_int 1 \<longleftrightarrow> 1 * 10 ^ 9 \<le> 10 * 10 ^ 9 + (0 :: int)"
    unfolding elapsedSeconds_def by (subst seconds_between_threshold) (simp_all add: zero_timespec_def)
  then show ?thesis
    by (simp add: world_ok_def example_user_world_def view_ok_def initial_telemetry_def)
qed

theorem user_requests_answered_witness:
  "\<exists>c'. userHandler 7 example_user_world
      (fresh_user 7 [[1, 0xAA], [0xF6, 0xAA, 0xFD]] (replicate 260 (Sent 500))) = (Return UserDisconnected, c') \<and>
    uc_out c' = RESPONSE_END_MARKER @ RESPONSE_END_MARKER \<and> held [] (uc_acts c') = Some []"
proof -
  have bytes: "concat [[1, 0xAA], [0xF6, 0xAA, 0xFD]] = requests_bytes [([1], ReqAll), ([], ReqOnline)] []"
    by (simp add: requests_bytes_def encode_request_def tel_SYNC_BYTE_def selection_defs)
  have gen: "generous (130 * length [([1], ReqAll), ([], ReqOnline)]) (replicate 260 (Sent 500))"
    by (simp add: generous_def TRANSMIT_BUFFER_SIZE_def list_all_iff)
  from user_requests_answered [OF example_world_ok _ _ bytes gen, of 7] show ?thesis
    by (simp add: tel_SYNC_BYTE_def answer_def answer_body_def example_user_world_def initial_telemetry_def)
qed



text \<open>
  C22: The throughput is accurate: for a positive measuring time the number formatted (with two
  decimals, in Mbps or Kbps) is the number of frames received times the 640 bits of a frame per
  second, up to a relative error of \<open>2\<^sup>-\<^sup>5\<^sup>0\<close> from the floating point operations, and frames are
  counted correctly across a wrap-around of the 64-bit counter.
\<close>

theorem throughput_accurate:
  assumes "0 < secs" "throughput_frame_count t_end = throughput_frame_count t_start + of_nat n" "n < 2 ^ 64"
  shows "\<exists>x unit scale. (unit, scale) \<in> {('' Mbps'', 1000000), ('' Kbps'', 1000)} \<and>
    throughput_text (throughput_frame_count t_end - throughput_frame_count t_start) secs =
      ''THROUGHPUT: '' @ show_fixed 2 x @ unit @ [NEWLINE] \<and>
    \<bar>x - of_nat n * 640 / secs / scale\<bar> \<le> \<bar>of_nat n * 640 / secs / scale\<bar> / 2 ^ 50"
proof -
  have n: "unat (throughput_frame_count t_end - throughput_frame_count t_start) = n"
    using assms(2,3) by (simp add: unat_of_nat take_bit_nat_eq_self)
  have "fl (of_int 80) = of_int 80" by (rule fl_of_int) simp
  then have eighty: "fl 80 = 80" by simp
  define bits where "bits = fl (fl (fl (of_nat n) * 80) * 8)"
  have "close 3 bits (of_nat n * 80 * 8)"
    unfolding bits_def numeral_3_eq_3 by (intro close_fl close_scale close_self)
  then have bps: "close 4 (fl (bits / secs)) (of_nat n * 640 / secs)"
    using close_fl [OF close_divide [of 3 bits "of_nat n * 80 * 8" secs]]
    by (simp add: eval_nat_numeral mult.commute)
  have acc: "\<bar>fl (fl (bits / secs) / c) - of_nat n * 640 / secs / c\<bar> \<le> \<bar>of_nat n * 640 / secs / c\<bar> / 2 ^ 50" for c
    using close_six [OF close_fl [OF close_divide [OF bps, of c]]] by simp
  have shown: "throughput_text (throughput_frame_count t_end - throughput_frame_count t_start) secs =
      ''THROUGHPUT: '' @ (if fl (bits / secs) \<ge> 1000000 then show_fixed 2 (fl (fl (bits / secs) / 1000000)) @ '' Mbps''
        else show_fixed 2 (fl (fl (bits / secs) / 1000)) @ '' Kbps'') @ [NEWLINE]"
    unfolding throughput_text_def n Let_def bits_def using assms(1) by (simp add: eighty)
  define unit where "unit = (if fl (bits / secs) \<ge> 1000000 then '' Mbps'' else '' Kbps'')"
  define scale :: rat where "scale = (if fl (bits / secs) \<ge> 1000000 then 1000000 else 1000)"
  have "(unit, scale) \<in> {('' Mbps'', 1000000), ('' Kbps'', 1000)}" by (simp add: unit_def scale_def)
  moreover have "throughput_text (throughput_frame_count t_end - throughput_frame_count t_start) secs =
      ''THROUGHPUT: '' @ show_fixed 2 (fl (fl (bits / secs) / scale)) @ unit @ [NEWLINE]"
    unfolding shown by (simp add: unit_def scale_def)
  ultimately show ?thesis using acc [of scale] by blast
qed

definition example_counter :: "u64 \<Rightarrow> telemetry" where
  "example_counter c = (initial_telemetry (\<lambda>_. zero_sensor))\<lparr>throughput_frame_count := c\<rparr>"

theorem throughput_accurate_witness:
  "\<exists>x unit scale. (unit, scale) \<in> {('' Mbps'', 1000000), ('' Kbps'', 1000)} \<and>
    throughput_text (throughput_frame_count (example_counter 4) - throughput_frame_count (example_counter (-1))) 10 =
      ''THROUGHPUT: '' @ show_fixed 2 x @ unit @ [NEWLINE] \<and> \<bar>x - 320 / scale\<bar> \<le> \<bar>320 / scale\<bar> / 2 ^ 50"
  using throughput_accurate [of 10 "example_counter 4" "example_counter (-1)" 5]
  by (simp add: example_counter_def)

end
