(* ===== verification/Telemetry_Threads.thy ===== *)
theory Telemetry_Threads
  imports Registry
begin

text \<open>
  The threads of the telemetry daemon over the shared registry, as a step relation: the main loop
  with its program counter and the watchdog, interleaved in any order. A step is a critical
  section (the mutexes make them atomic) or a transition of the main loop outside of one; what
  the environment decides (the frame received, the memory \<open>realloc\<close> returns, the clock) is
  arbitrary. The user threads only read the shared state under the mutex, so what they can see
  is what holds in the reachable states. \<open>history\<close> is a ghost: the frames recorded so far.
\<close>

datatype main_pc = AtGrow | AtReceive | AtCount Sensor_t | AtRecord Sensor_t | Ended int

record tel_sys =
  pc :: main_pc
  shared :: telemetry
  history :: "Sensor_t list"

inductive tel_step :: "tel_sys \<Rightarrow> tel_sys \<Rightarrow> bool" where
  exit_requested: "pc s = AtGrow \<Longrightarrow> tel_step s (s\<lparr>pc := Ended 0\<rparr>)"
| grow: "pc s = AtGrow \<Longrightarrow> grow_registry mem (shared s) = Some t \<Longrightarrow>
    tel_step s (s\<lparr>pc := AtReceive, shared := t\<rparr>)"
| grow_failed: "pc s = AtGrow \<Longrightarrow> grow_registry mem (shared s) = None \<Longrightarrow>
    tel_step s (s\<lparr>pc := Ended (-1)\<rparr>)"
| receive: "pc s = AtReceive \<Longrightarrow> tel_step s (s\<lparr>pc := AtCount fr\<rparr>)"
| receive_incomplete: "pc s = AtReceive \<Longrightarrow> tel_step s (s\<lparr>pc := AtGrow\<rparr>)"
| receive_failed: "pc s = AtReceive \<Longrightarrow> v \<in> {0, -1} \<Longrightarrow> tel_step s (s\<lparr>pc := Ended v\<rparr>)"
| counted: "pc s = AtCount fr \<Longrightarrow>
    tel_step s (s\<lparr>pc := AtRecord fr, shared := count_frame (shared s)\<rparr>)"
| recorded: "pc s = AtRecord fr \<Longrightarrow> record_frame fr (shared s) = (Recorded, t) \<Longrightarrow>
    tel_step s (s\<lparr>pc := AtGrow, shared := t, history := history s @ [fr]\<rparr>)"
| record_failed: "pc s = AtRecord fr \<Longrightarrow> record_frame fr (shared s) = (r, t) \<Longrightarrow> r \<noteq> Recorded \<Longrightarrow>
    tel_step s (s\<lparr>pc := Ended (-1), shared := t\<rparr>)"
| watchdog: "\<forall>v. pc s \<noteq> Ended v \<Longrightarrow> tel_step s (s\<lparr>shared := wdt_sweep now (shared s)\<rparr>)"

inductive_cases tel_step_cases: "tel_step s s'"
inductive_simps tel_step_ended: "tel_step (s\<lparr>pc := Ended v\<rparr>) s'"

definition initial_sys :: "(nat \<Rightarrow> Sensor_t) \<Rightarrow> tel_sys" where
  "initial_sys garbage = \<lparr>pc = AtGrow, shared = initial_telemetry garbage, history = []\<rparr>"

definition reachable :: "(nat \<Rightarrow> Sensor_t) \<Rightarrow> tel_sys \<Rightarrow> bool" where
  "reachable garbage s \<longleftrightarrow> tel_step\<^sup>*\<^sup>* (initial_sys garbage) s"

section \<open>The invariant\<close>

text \<open>The main loop is past its growth step and has not used the slot yet.\<close>

fun past_grow :: "main_pc \<Rightarrow> bool" where
  "past_grow AtReceive = True"
| "past_grow (AtCount fr) = True"
| "past_grow (AtRecord fr) = True"
| "past_grow _ = False"

text \<open>Frames counted but not recorded yet.\<close>

fun in_flight :: "main_pc \<Rightarrow> nat" where
  "in_flight (AtRecord fr) = 1"
| "in_flight _ = 0"

definition known_states :: "telemetry \<Rightarrow> bool" where
  "known_states t \<longleftrightarrow> (\<forall>k v. registry_lookup t k = Some v \<longrightarrow> s_state v \<noteq> SENSOR_FRAME_DEFAULT)"

definition tel_inv :: "tel_sys \<Rightarrow> bool" where
  "tel_inv s \<longleftrightarrow> registry_ok (shared s) \<and> (past_grow (pc s) \<longrightarrow> has_room (shared s)) \<and>
     tracks (registry_lookup (shared s)) (history s) \<and> known_states (shared s) \<and>
     ((\<forall>v. pc s \<noteq> Ended v) \<longrightarrow>
        throughput_frame_count (shared s) = of_nat (length (history s) + in_flight (pc s)))"

lemma registry_lookup_frame [simp]: "registry_lookup (count_frame t) = registry_lookup t"
  "registry_ok (count_frame t) = registry_ok t" "has_room (count_frame t) = has_room t"
  by (simp_all add: count_frame_def registry_lookup_def registry_ok_def has_room_def fun_eq_iff)

lemma throughput_count_frame [simp]:
  "throughput_frame_count (count_frame t) = throughput_frame_count t + 1"
  by (simp add: count_frame_def)

lemma known_states_count [simp]: "known_states (count_frame t) = known_states t"
  by (simp add: known_states_def)

lemma known_states_sweep: "registry_ok t \<Longrightarrow> known_states (wdt_sweep now t)"
  by (auto simp: known_states_def wdt_sweep_lookup wdt_state_def)

lemma known_states_record:
  assumes "registry_ok t" "has_room t" "record_frame fr t = (Recorded, t')" "known_states t"
  shows "known_states t'"
  unfolding known_states_def
proof (intro allI impI)
  fix k v
  assume v: "registry_lookup t' k = Some v"
  show "s_state v \<noteq> SENSOR_FRAME_DEFAULT"
  proof (cases "k = key fr")
    case True
    with v record_frame_same [OF assms(1-3)] show ?thesis by auto
  next
    case False
    with v record_frame_other [OF assms(1-3) False] have "registry_lookup t k = Some v" by simp
    with assms(4) show ?thesis unfolding known_states_def by blast
  qed
qed

lemma record_frame_count:
  "registry_ok t \<Longrightarrow> has_room t \<Longrightarrow> record_frame fr t = (r, t') \<Longrightarrow>
   throughput_frame_count t' = throughput_frame_count t"
  by (cases rule: record_frame_cases [where t = t and fr = fr]) auto

lemma record_frame_failed:
  assumes "registry_ok t" "has_room t" "record_frame fr t = (r, t')" "r \<noteq> Recorded"
  shows "t' = t"
  using assms(1,2) by (cases rule: record_frame_cases [where fr = fr]) (use assms(3,4) in auto)

lemma tel_inv_initial: "tel_inv (initial_sys g)"
proof -
  have "registry_lookup (initial_telemetry g) k = None" for k
    by (simp add: registry_lookup_def initial_telemetry_def)
  then show ?thesis
    by (simp add: tel_inv_def initial_sys_def initial_ok tracks_def known_states_def)
      (simp add: initial_telemetry_def)
qed

lemma tel_inv_step:
  assumes "tel_step s s'" "tel_inv s"
  shows "tel_inv s'"
  using assms
proof (cases rule: tel_step.cases)
  case (grow mem t)
  with assms(2) grow_registry_ok [of "shared s" mem t] show ?thesis
    by (simp add: tel_inv_def known_states_def)
next
  case (recorded fr t)
  with assms(2) have ok: "registry_ok (shared s)" "has_room (shared s)" by (simp_all add: tel_inv_def)
  have "tracks (registry_lookup t) (history s @ [fr])"
    using registry.tracks_store [OF ok] recorded assms(2) by (simp add: store_frame_Some tel_inv_def)
  with recorded assms(2) record_frame_ok [OF ok] record_frame_count [OF ok] known_states_record [OF ok]
  show ?thesis by (auto simp: tel_inv_def)
next
  case (record_failed fr r t)
  with assms(2) have ok: "registry_ok (shared s)" "has_room (shared s)" by (simp_all add: tel_inv_def)
  with record_failed assms(2) record_frame_failed [OF ok record_failed(3,4)] show ?thesis
    by (simp add: tel_inv_def)
next
  case (watchdog now)
  with assms(2) registry.tracks_sweep wdt_sweep_ok known_states_sweep show ?thesis
    by (simp add: tel_inv_def)
qed (use assms(2) in \<open>auto simp: tel_inv_def\<close>)

lemma reachable_inv: "reachable g s \<Longrightarrow> tel_inv s"
  unfolding reachable_def
  by (induction rule: rtranclp_induct) (auto intro: tel_inv_initial tel_inv_step)

lemma reachable_step: "reachable g s \<Longrightarrow> tel_step s s' \<Longrightarrow> reachable g s'"
  unfolding reachable_def by (rule rtranclp.rtrancl_into_rtrancl)

text \<open>The first frame on its way into an empty registry.\<close>

lemma reachable_first_frame:
  "reachable g \<lparr>pc = AtRecord fr, shared = count_frame (initial_telemetry g), history = []\<rparr>"
proof -
  have "reachable g (initial_sys g)" by (simp add: reachable_def)
  moreover have "grow_registry None (initial_telemetry g) = Some (initial_telemetry g)"
    by (simp add: grow_registry_def initial_telemetry_def registry_consts)
  then have "tel_step (initial_sys g) (initial_sys g\<lparr>pc := AtReceive\<rparr>)"
    using tel_step.grow [of "initial_sys g" None "initial_telemetry g"] by (simp add: initial_sys_def)
  moreover have "tel_step (initial_sys g\<lparr>pc := AtReceive\<rparr>) (initial_sys g\<lparr>pc := AtCount fr\<rparr>)"
    using tel_step.receive [of "initial_sys g\<lparr>pc := AtReceive\<rparr>" fr] by (simp add: initial_sys_def)
  moreover have "tel_step (initial_sys g\<lparr>pc := AtCount fr\<rparr>)
      \<lparr>pc = AtRecord fr, shared = count_frame (initial_telemetry g), history = []\<rparr>"
    using tel_step.counted [of "initial_sys g\<lparr>pc := AtCount fr\<rparr>" fr] by (simp add: initial_sys_def)
  ultimately show ?thesis by (blast intro: reachable_step)
qed

section \<open>Properties\<close>

text \<open>
  C8: Memory safety of the registry: in every reachable state, for any interleaving with the
  watchdog and any growth history, the search loop stays inside the allocated block, and recording
  a frame either succeeds or reports a full registry; it never writes outside the block.
\<close>

theorem registry_access_in_bounds:
  assumes "reachable g s" "pc s = AtRecord fr"
  shows "sensor_count (shared s) \<le> length (sensor_registry (shared s)) \<and>
    fst (record_frame fr (shared s)) \<in> {Recorded, RegistryFull}"
proof -
  have ok: "registry_ok (shared s)" "has_room (shared s)"
    using reachable_inv [OF assms(1)] assms(2) by (simp_all add: tel_inv_def)
  obtain r t where "record_frame fr (shared s) = (r, t)" by fastforce
  with record_frame_ok [OF ok] registry_ok_le [OF ok(1)] show ?thesis by auto
qed

theorem registry_access_in_bounds_witness:
  "fst (record_frame zero_sensor (count_frame (initial_telemetry (\<lambda>_. zero_sensor))))
     \<in> {Recorded, RegistryFull}"
  using registry_access_in_bounds [OF reachable_first_frame [of "\<lambda>_. zero_sensor" zero_sensor]] by simp

text \<open>
  C7: The registry is right about the past: in every reachable state a sensor is known exactly
  when a frame of it was recorded, its name, kind and last contact are those of its latest frame,
  and its data and time stamp those of its latest data frame, if there was one. Growth of the
  array and passes of the watchdog never disturb this.
\<close>

theorem registry_tracks_frames:
  assumes "reachable g s"
  shows "tracks (registry_lookup (shared s)) (history s)"
  using reachable_inv [OF assms] by (simp add: tel_inv_def)

theorem registry_tracks_frames_witness:
  "tracks (registry_lookup (initial_telemetry (\<lambda>_. zero_sensor))) []"
proof -
  have "reachable (\<lambda>_. zero_sensor) (initial_sys (\<lambda>_. zero_sensor))" by (simp add: reachable_def)
  from registry_tracks_frames [OF this] show ?thesis by (simp add: initial_sys_def)
qed

text \<open>
  The array is 16, 32, 64 or 128 slots long, at most 128 sensors are registered, no sensor has
  two slots, and every registered sensor is either online or offline.
\<close>

theorem registry_shape:
  assumes "reachable g s"
  shows "length (sensor_registry (shared s)) \<in> {16, 32, 64, 128} \<and>
    sensor_count (shared s) \<le> SENSORS_LIMIT_MAX \<and>
    distinct (map key (take (sensor_count (shared s)) (sensor_registry (shared s)))) \<and>
    list_all (\<lambda>v. s_state v = SENSOR_ONLINE \<or> s_state v = SENSOR_OFFLINE)
      (take (sensor_count (shared s)) (sensor_registry (shared s)))"
proof -
  have ok: "registry_ok (shared s)" and ks: "known_states (shared s)"
    using reachable_inv [OF assms] by (simp_all add: tel_inv_def)
  have "s_state (sensor_registry (shared s) ! i) \<noteq> SENSOR_FRAME_DEFAULT"
    if "i < sensor_count (shared s)" for i
    using ks that unfolding known_states_def lookup_iff [OF ok] by blast
  then have "list_all (\<lambda>v. s_state v = SENSOR_ONLINE \<or> s_state v = SENSOR_OFFLINE) (used (shared s))"
    by (auto simp: list_all_length) (metis SensorState_e.exhaust)
  with ok registry_ok_limit [OF ok] show ?thesis
    by (auto simp: registry_ok_def sensor_allocation_count_def)
qed

theorem registry_shape_witness:
  "length (sensor_registry (count_frame (initial_telemetry (\<lambda>_. zero_sensor)))) \<in> {16, 32, 64, 128}"
  using registry_shape [OF reachable_first_frame [of "\<lambda>_. zero_sensor" zero_sensor]] by simp

text \<open>
  C26: The limit: a frame is refused exactly when 128 sensors are registered and it comes from yet
  another one. The refusal ends the daemon, so 129 sensors on one gateway stop the telemetry.
\<close>

theorem one_sensor_too_many_ends_daemon:
  assumes "reachable g s" "pc s = AtRecord fr"
  shows "(registry_lookup (shared s) (key fr) = None \<and> sensor_count (shared s) = SENSORS_LIMIT_MAX) =
    tel_step s (s\<lparr>pc := Ended (-1)\<rparr>)"
proof -
  have ok: "registry_ok (shared s)" "has_room (shared s)"
    using reachable_inv [OF assms(1)] assms(2) by (simp_all add: tel_inv_def)
  have step: "tel_step s (s\<lparr>pc := Ended (-1)\<rparr>) \<longleftrightarrow>
      (\<exists>r. r \<noteq> Recorded \<and> record_frame fr (shared s) = (r, shared s))"
  proof
    assume "tel_step s (s\<lparr>pc := Ended (-1)\<rparr>)"
    then show "\<exists>r. r \<noteq> Recorded \<and> record_frame fr (shared s) = (r, shared s)"
      using assms(2) by (cases rule: tel_step.cases) (auto dest: arg_cong [where f = pc] arg_cong [where f = shared])
  next
    assume "\<exists>r. r \<noteq> Recorded \<and> record_frame fr (shared s) = (r, shared s)"
    then obtain r where r: "record_frame fr (shared s) = (r, shared s)" "r \<noteq> Recorded" by blast
    from tel_step.record_failed [OF assms(2) r] show "tel_step s (s\<lparr>pc := Ended (-1)\<rparr>)" by simp
  qed
  from ok show ?thesis
  proof (cases rule: record_frame_cases [where fr = fr])
    case (known i)
    then have "registry_lookup (shared s) (key fr) \<noteq> None" using lookup_none [OF ok(1)] by blast
    with known show ?thesis by (auto simp: step)
  qed (auto simp: step)
qed

theorem one_sensor_too_many_ends_daemon_witness:
  "\<not> tel_step
     \<lparr>pc = AtRecord zero_sensor, shared = count_frame (initial_telemetry (\<lambda>_. zero_sensor)), history = []\<rparr>
     \<lparr>pc = Ended (-1), shared = count_frame (initial_telemetry (\<lambda>_. zero_sensor)), history = []\<rparr>"
  using one_sensor_too_many_ends_daemon
    [OF reachable_first_frame [of "\<lambda>_. zero_sensor" zero_sensor], of zero_sensor]
  by (simp add: count_frame_def initial_telemetry_def SENSORS_LIMIT_MAX_def)

text \<open>
  C12: The watchdog's threshold is exact in spite of the double arithmetic: after a pass at time
  \<open>now\<close> a registered sensor is offline exactly when at least 30 seconds, to the nanosecond, have
  passed since its last frame, and nothing else about it has changed.
\<close>

theorem watchdog_threshold_exact:
  assumes "reachable g s" "registry_lookup (shared s) k = Some v"
    and "\<bar>tv_sec now - tv_sec (s_last_seen_time v)\<bar> < 2 ^ 53"
    and "\<bar>tv_nsec now - tv_nsec (s_last_seen_time v)\<bar> < 10 ^ 9"
  shows "registry_lookup (wdt_sweep now (shared s)) k = Some (v\<lparr>s_state :=
    if 30 * 10 ^ 9 \<le> (tv_sec now * 10 ^ 9 + tv_nsec now) -
        (tv_sec (s_last_seen_time v) * 10 ^ 9 + tv_nsec (s_last_seen_time v))
    then SENSOR_OFFLINE else SENSOR_ONLINE\<rparr>)"
proof -
  have ok: "registry_ok (shared s)" using reachable_inv [OF assms(1)] by (simp add: tel_inv_def)
  define ds where "ds = tv_sec now - tv_sec (s_last_seen_time v)"
  define dn where "dn = tv_nsec now - tv_nsec (s_last_seen_time v)"
  have "fl (of_int 30) = of_int 30" by (rule fl_of_int) simp
  then have lim: "sensor_activity_time = of_int 30"
    by (simp add: sensor_activity_time_def SENSOR_INACTIVE_SECS_MAX_def)
  have "sensor_activity_time \<le> elapsedSeconds (s_last_seen_time v) now \<longleftrightarrow>
      30 * 10 ^ 9 \<le> ds * 10 ^ 9 + dn"
    unfolding lim elapsedSeconds_def ds_def [symmetric] dn_def [symmetric]
    using assms(3,4) by (intro seconds_between_threshold) (simp_all add: ds_def dn_def)
  moreover have "ds * 10 ^ 9 + dn = (tv_sec now * 10 ^ 9 + tv_nsec now) -
      (tv_sec (s_last_seen_time v) * 10 ^ 9 + tv_nsec (s_last_seen_time v))"
    by (simp add: ds_def dn_def algebra_simps)
  ultimately have "wdt_state now v = (if 30 * 10 ^ 9 \<le> (tv_sec now * 10 ^ 9 + tv_nsec now) -
        (tv_sec (s_last_seen_time v) * 10 ^ 9 + tv_nsec (s_last_seen_time v))
      then SENSOR_OFFLINE else SENSOR_ONLINE)"
    by (simp only: wdt_state_def)
  with registry.sweep_verdict [OF ok assms(2)] show ?thesis by simp
qed

text \<open>A registry with one sensor, last seen at time 0.\<close>

definition example_registry :: telemetry where
  "example_registry = snd (record_frame zero_sensor (count_frame (initial_telemetry (\<lambda>_. zero_sensor))))"

lemma example_record:
  "record_frame zero_sensor (count_frame (initial_telemetry (\<lambda>_. zero_sensor))) = (Recorded, example_registry)"
  by (simp add: example_registry_def record_frame_def sensorExists_def sensorExists_loop.simps
      count_frame_def initial_telemetry_def registry_consts updateRegistry_refresh)

lemma example_reachable:
  "reachable (\<lambda>_. zero_sensor) \<lparr>pc = AtGrow, shared = example_registry, history = [zero_sensor]\<rparr>"
  using reachable_step [OF reachable_first_frame
      tel_step.recorded [where fr = zero_sensor and t = example_registry]] example_record
  by simp

lemma example_lookup:
  "registry_lookup example_registry (key zero_sensor) = Some (zero_sensor\<lparr>s_state := SENSOR_ONLINE\<rparr>)"
  by (simp add: example_registry_def record_frame_def sensorExists_def sensorExists_loop.simps
      count_frame_def initial_telemetry_def registry_consts updateRegistry_def Let_def
      registry_lookup_def key_def zero_sensor_def upt_rec)

theorem watchdog_threshold_exact_witness:
  "registry_lookup (wdt_sweep \<lparr>tv_sec = 30, tv_nsec = 0\<rparr> example_registry) (key zero_sensor) =
     Some (zero_sensor\<lparr>s_state := SENSOR_OFFLINE\<rparr>) \<and>
   registry_lookup (wdt_sweep \<lparr>tv_sec = 29, tv_nsec = 999999999\<rparr> example_registry) (key zero_sensor) =
     Some (zero_sensor\<lparr>s_state := SENSOR_ONLINE\<rparr>)"
proof -
  have seen: "s_last_seen_time zero_sensor = \<lparr>tv_sec = 0, tv_nsec = 0\<rparr>"
    by (simp add: zero_sensor_def zero_timespec_def)
  have "registry_lookup
      (shared \<lparr>pc = AtGrow, shared = example_registry, history = [zero_sensor]\<rparr>) (key zero_sensor) =
      Some (zero_sensor\<lparr>s_state := SENSOR_ONLINE\<rparr>)"
    by (simp add: example_lookup)
  note run = watchdog_threshold_exact [OF example_reachable this]
  from run [of "\<lparr>tv_sec = 30, tv_nsec = 0\<rparr>"] run [of "\<lparr>tv_sec = 29, tv_nsec = 999999999\<rparr>"]
  show ?thesis by (simp add: seen)
qed

text \<open>
  The throughput counter counts: as long as the daemon runs, it is the number of frames
  recorded, plus one while a frame is between the counter and the registry, modulo \<open>2\<^sup>6\<^sup>4\<close>.
\<close>

theorem throughput_counts_frames:
  assumes "reachable g s" "\<forall>v. pc s \<noteq> Ended v"
  shows "throughput_frame_count (shared s) = of_nat (length (history s) + in_flight (pc s))"
  using reachable_inv [OF assms(1)] assms(2) by (simp add: tel_inv_def)

theorem throughput_counts_frames_witness: "throughput_frame_count example_registry = 1"
  using throughput_counts_frames [OF example_reachable] by simp



end
