(* ===== verification/Telemetry.thy ===== *)
theory Telemetry
  imports Telemetry_Server Telemetry_Threads Frame_Receiver "HOL-Library.Multiset"
begin

text \<open>
  \<open>src/telemetry_d.c\<close> as a process: start-up, the main loop as a sequential program, the
  accept loop of the user interface. The main loop is shown to be an execution of the step
  relation of \<open>Telemetry_Threads\<close>, so what holds in the reachable states holds of it.
\<close>

definition tel_ACCEPT_FAILURE_LIMIT :: nat where "tel_ACCEPT_FAILURE_LIMIT = 16"
definition tel_RX_MQ_NAME :: string where "tel_RX_MQ_NAME = ''/mq-process-telemetry''"

section \<open>The main loop\<close>

function tel_receiveFrame :: "bool \<Rightarrow> frame_event list \<Rightarrow> frame_result" where
  "tel_receiveFrame ex evs =
     (if \<not> ex then
        (case mq_wait ex evs of
           (Blocked, ex', es) \<Rightarrow> (Blocked, ex', es)
         | (Return (GotFrame n fr), ex', es) \<Rightarrow> (Return (int n, Some fr), ex', es)
         | (Return FrameEintr, ex', es) \<Rightarrow> tel_receiveFrame ex' es
         | (Return FrameErr, ex', es) \<Rightarrow> (Return (-1, None), ex', es))
      else (Return (-1, None), ex, evs))"
  by pat_completeness auto
termination
  by (relation "measure (\<lambda>(ex, evs). length evs)") (auto dest: mq_wait_shrinks [OF sym])

declare tel_receiveFrame.simps [simp del]

interpretation tel_rx: frame_receiver tel_receiveFrame
proof
  fix evs
  have "tel_receiveFrame True es = (Return (-1, None), True, es)" for es
    by (subst tel_receiveFrame.simps) simp
  then show "tel_receiveFrame False evs =
      (case mq_wait False evs of
         (Blocked, ex', es) \<Rightarrow> (Blocked, ex', es)
       | (Return (GotFrame n fr), ex', es) \<Rightarrow> (Return (int n, Some fr), ex', es)
       | (Return FrameErr, ex', es) \<Rightarrow> (Return (-1, None), ex', es)
       | (Return FrameEintr, ex', es) \<Rightarrow>
           (if ex' then (Return (-1, None), ex', es) else tel_receiveFrame ex' es))"
    by (subst tel_receiveFrame.simps) (auto split: prod.split io.split frame_recv.split)
qed

text \<open>
  What the other threads and the allocator do: the passes of the watchdog before the first and
  between the two critical sections of iteration \<open>k\<close>, and the memory \<open>realloc\<close> returns.
\<close>

record tel_world =
  tw_realloc :: "nat \<Rightarrow> (nat \<Rightarrow> Sensor_t) option"
  tw_before :: "nat \<Rightarrow> sensor_timespec_t list"
  tw_between :: "nat \<Rightarrow> sensor_timespec_t list"

function tel_loop ::
  "tel_world \<Rightarrow> nat \<Rightarrow> bool \<Rightarrow> frame_event list \<Rightarrow> telemetry \<Rightarrow> int io \<times> telemetry" where
  "tel_loop w k ex evs t =
     (if ex then (Return 0, t)
      else
        let t0 = fold wdt_sweep (tw_before w k) t in
        case grow_registry (tw_realloc w k) t0 of
          None \<Rightarrow> (Return (-1), t0)
        | Some t1 \<Rightarrow>
            (case tel_receiveFrame ex evs of
               (Blocked, ex', es) \<Rightarrow> (Blocked, t1)
             | (Return (len, fr), ex', es) \<Rightarrow>
                 if len = -1 then (Return (if ex' then 0 else -1), t1)
                 else if len \<noteq> int sizeof_Sensor_t then tel_loop w (Suc k) ex' es t1
                 else
                   let t2 = fold wdt_sweep (tw_between w k) (count_frame t1) in
                   (case record_frame (the fr) t2 of
                      (Recorded, t3) \<Rightarrow> tel_loop w (Suc k) ex' es t3
                    | (_, t3) \<Rightarrow> (Return (-1), t3))))"
  by pat_completeness auto
termination
  by (relation "measure (\<lambda>(w, k, ex, evs, t). length evs)") (auto dest: tel_rx.rx_shrinks [OF sym])

declare tel_loop.simps [simp del]

section \<open>Start-up\<close>

definition tel_ipc_init :: "bool \<Rightarrow> int option \<Rightarrow> int \<times> sys_act list" where
  "tel_ipc_init mq_open_ok msgsize =
     (if \<not> mq_open_ok then (-1, [])
      else case msgsize of
        None \<Rightarrow> (-1, [Acquire (ResMq tel_RX_MQ_NAME), Release (ResMq tel_RX_MQ_NAME)])
      | Some n \<Rightarrow>
          if n < 0 \<or> nat n < sizeof_Sensor_t then
            (-1, [Acquire (ResMq tel_RX_MQ_NAME), Release (ResMq tel_RX_MQ_NAME)])
          else (0, [Acquire (ResMq tel_RX_MQ_NAME)]))"

definition tel_socket_init :: "socket_results \<Rightarrow> int \<times> int \<times> sys_act list" where
  "tel_socket_init env =
     (if getaddrinfo_result env \<noteq> 0 then (-1, -1, [])
      else let fd = socket_result env in
      if fd = -1 then (-1, fd, [Acquire ResAddrInfo, Release ResAddrInfo])
      else if setsockopt_result env = -1 then
        (-1, fd, [Acquire ResAddrInfo, Acquire (ResFd fd), Release (ResFd fd), Release ResAddrInfo])
      else if bind_result env = -1 then
        (-1, fd, [Acquire ResAddrInfo, Acquire (ResFd fd), Release (ResFd fd), Release ResAddrInfo])
      else (0, fd, [Acquire ResAddrInfo, Acquire (ResFd fd), Release ResAddrInfo]))"

abbreviation server_cell :: resource where "server_cell \<equiv> ResMem ''server_fd''"
abbreviation registry_mem :: resource where "registry_mem \<equiv> ResMem ''sensor_registry''"

definition userInterface_init :: "bool \<Rightarrow> socket_results \<Rightarrow> bool \<Rightarrow> int \<times> sys_act list" where
  "userInterface_init malloc_ok env created =
     (if \<not> malloc_ok then (-1, [])
      else let (r, fd, acts) = tel_socket_init env in
      if r = -1 then (-1, Acquire server_cell # acts @ [Release server_cell])
      else if listen_result env = -1 then
        (-1, Acquire server_cell # acts @ [Release (ResFd fd), Release server_cell])
      else if \<not> created then
        (-1, Acquire server_cell # acts @ [Release (ResFd fd), Release server_cell])
      else (0, Acquire server_cell # acts @ [Handover (ResFd fd), Handover server_cell]))"

definition sensorWatchdog_init :: "bool \<Rightarrow> int" where
  "sensorWatchdog_init created = (if \<not> created then -1 else 0)"

record tel_env =
  te_init :: init_results
  te_mq_open_ok :: bool
  te_msgsize :: "int option"
  te_malloc :: "(nat \<Rightarrow> Sensor_t) option"
  te_watchdog :: bool
  te_ui_malloc :: bool
  te_socket :: socket_results
  te_ui_thread :: bool
  te_world :: tel_world
  te_frames :: "frame_event list"

text \<open>The result of \<open>main\<close>, the registry at that time, the ledger.\<close>

definition tel_main :: "tel_env \<Rightarrow> process \<Rightarrow> init_outcome io \<times> telemetry option \<times> sys_act list" where
  "tel_main env p =
     (case daemon_init (te_init env) p of
        (Exit v, _) \<Rightarrow> (Return (Exit v), None, [])
      | (Ret d, p1) \<Rightarrow>
          if d = -1 then (Return (Ret (-1)), None, [])
          else if fst (signals_init (te_init env) p1) = -1 then (Return (Ret (-1)), None, [])
          else let (i, acts) = tel_ipc_init (te_mq_open_ok env) (te_msgsize env);
                   close_mq = [Release (ResMq tel_RX_MQ_NAME)];
                   free_all = Release registry_mem # close_mq in
          if i = -1 then (Return (Ret (-1)), None, acts)
          else case te_malloc env of
            None \<Rightarrow> (Return (Ret (-1)), None, acts @ close_mq)
          | Some garbage \<Rightarrow>
              let acts1 = acts @ [Acquire registry_mem] in
              if sensorWatchdog_init (te_watchdog env) = -1 then
                (Return (Ret (-1)), None, acts1 @ free_all)
              else let (u, acts2) =
                     userInterface_init (te_ui_malloc env) (te_socket env) (te_ui_thread env) in
              if u = -1 then (Return (Ret (-1)), None, acts1 @ acts2 @ free_all)
              else (case tel_loop (te_world env) 0 False (te_frames env) (initial_telemetry garbage) of
                      (Blocked, t) \<Rightarrow> (Blocked, Some t, acts1 @ acts2)
                    | (Return v, t) \<Rightarrow> (Return (Ret v), Some t, acts1 @ acts2 @ free_all)))"

section \<open>The accept loop\<close>

text \<open>The loop of \<open>socketConnectionHandler\<close> with the \<open>close\<close> after it.\<close>

fun tel_accept_loop :: "int \<Rightarrow> bool \<Rightarrow> nat \<Rightarrow> accept_event list \<Rightarrow> accept_result" where
  "tel_accept_loop server_fd True failures evs = (Return (), [], [Release (ResFd server_fd)])"
| "tel_accept_loop server_fd False failures [] = (Blocked, [], [])"
| "tel_accept_loop server_fd False failures (MallocFail # es) =
     (Return (), [], [Release (ResFd server_fd), Release (ResFd server_fd)])"
| "tel_accept_loop server_fd False failures (AcceptIntr sg # es) =
     prepend [] [Acquire client_cell, Release client_cell]
       (if signalHandler sg False then (Return (), [], [Release (ResFd server_fd)])
        else tel_accept_loop server_fd (signalHandler sg False) failures es)"
| "tel_accept_loop server_fd False failures (AcceptFail # es) =
     prepend [] [Acquire client_cell, Release client_cell]
       (if Suc failures \<ge> tel_ACCEPT_FAILURE_LIMIT then (Return (), [], [Release (ResFd server_fd)])
        else tel_accept_loop server_fd False (Suc failures) es)"
| "tel_accept_loop server_fd False failures (AcceptClient fd created # es) =
     (if \<not> created then
        prepend [] [Acquire client_cell, Acquire (ResFd fd), Release (ResFd fd),
          Release client_cell] (tel_accept_loop server_fd False 0 es)
      else
        prepend [fd] [Acquire client_cell, Acquire (ResFd fd), Handover (ResFd fd),
          Handover client_cell] (tel_accept_loop server_fd False 0 es))"

definition tel_socketConnectionHandler :: "int \<Rightarrow> accept_event list \<Rightarrow> accept_result" where
  "tel_socketConnectionHandler server_fd evs =
     prepend [] [Release server_cell] (tel_accept_loop server_fd False 0 evs)"

section \<open>The loop is an execution of the step relation\<close>

abbreviation tel_steps :: "tel_sys \<Rightarrow> tel_sys \<Rightarrow> bool" where
  "tel_steps \<equiv> tel_step\<^sup>*\<^sup>*"

lemma sweeps_steps:
  "\<forall>v. pc s \<noteq> Ended v \<Longrightarrow> tel_steps s (s\<lparr>shared := fold wdt_sweep nows (shared s)\<rparr>)"
proof (induction nows arbitrary: s)
  case (Cons now nows)
  have "tel_step s (s\<lparr>shared := wdt_sweep now (shared s)\<rparr>)" using Cons.prems by (rule watchdog)
  moreover have "tel_steps (s\<lparr>shared := wdt_sweep now (shared s)\<rparr>)
      (s\<lparr>shared := fold wdt_sweep (now # nows) (shared s)\<rparr>)"
    using Cons.IH [of "s\<lparr>shared := wdt_sweep now (shared s)\<rparr>"] Cons.prems by simp
  ultimately show ?case by (rule converse_rtranclp_into_rtranclp)
qed simp

text \<open>One iteration with a complete frame, up to the registry.\<close>

lemma iteration_steps:
  assumes "grow_registry mem (fold wdt_sweep before t) = Some t1"
  shows "tel_steps \<lparr>pc = AtGrow, shared = t, history = h\<rparr> \<lparr>pc = AtReceive, shared = t1, history = h\<rparr>"
    and "tel_steps \<lparr>pc = AtGrow, shared = t, history = h\<rparr>
      \<lparr>pc = AtRecord fr, shared = fold wdt_sweep between (count_frame t1), history = h\<rparr>"
proof -
  let ?s = "\<lparr>pc = AtGrow, shared = t, history = h\<rparr>"
  have "tel_steps ?s (?s\<lparr>shared := fold wdt_sweep before t\<rparr>)" using sweeps_steps [of ?s before] by simp
  moreover have "tel_step (?s\<lparr>shared := fold wdt_sweep before t\<rparr>)
      \<lparr>pc = AtReceive, shared = t1, history = h\<rparr>"
    using grow [of "?s\<lparr>shared := fold wdt_sweep before t\<rparr>" mem t1] assms by simp
  ultimately show rx: "tel_steps ?s \<lparr>pc = AtReceive, shared = t1, history = h\<rparr>"
    by (rule rtranclp.rtrancl_into_rtrancl)
  have "tel_step \<lparr>pc = AtReceive, shared = t1, history = h\<rparr> \<lparr>pc = AtCount fr, shared = t1, history = h\<rparr>"
    using receive [of "\<lparr>pc = AtReceive, shared = t1, history = h\<rparr>" fr] by simp
  moreover have "tel_step \<lparr>pc = AtCount fr, shared = t1, history = h\<rparr>
      \<lparr>pc = AtRecord fr, shared = count_frame t1, history = h\<rparr>"
    using counted [of "\<lparr>pc = AtCount fr, shared = t1, history = h\<rparr>" fr] by simp
  ultimately have "tel_steps ?s \<lparr>pc = AtRecord fr, shared = count_frame t1, history = h\<rparr>"
    using rx by (meson rtranclp.rtrancl_into_rtrancl)
  with sweeps_steps [of "\<lparr>pc = AtRecord fr, shared = count_frame t1, history = h\<rparr>" between]
  show "tel_steps ?s \<lparr>pc = AtRecord fr, shared = fold wdt_sweep between (count_frame t1), history = h\<rparr>"
    by simp
qed

lemma tel_loop_step:
  assumes "grow_registry (tw_realloc w k) (fold wdt_sweep (tw_before w k) t) = Some t1"
    and "tel_receiveFrame False evs = (Return (len, fr), ex', es)"
  shows "tel_loop w k False evs t =
    (if len = -1 then (Return (if ex' then 0 else -1), t1)
     else if len \<noteq> int sizeof_Sensor_t then tel_loop w (Suc k) ex' es t1
     else (case record_frame (the fr) (fold wdt_sweep (tw_between w k) (count_frame t1)) of
             (Recorded, t3) \<Rightarrow> tel_loop w (Suc k) ex' es t3
           | (_, t3) \<Rightarrow> (Return (-1), t3)))"
  using assms by (subst tel_loop.simps) simp

text \<open>Where a run of the loop leaves the system.\<close>

definition stands_at :: "tel_sys \<Rightarrow> int io \<times> telemetry \<Rightarrow> bool" where
  "stands_at s res \<longleftrightarrow> shared s = snd res \<and>
     (case fst res of Return v \<Rightarrow> pc s = Ended v | Blocked \<Rightarrow> pc s = AtReceive)"

lemma tel_loop_simulated:
  "\<exists>s'. tel_steps \<lparr>pc = AtGrow, shared = t, history = h\<rparr> s' \<and> stands_at s' (tel_loop w k ex evs t)"
proof (induction evs arbitrary: k ex t h rule: length_induct)
  case (1 evs)
  let ?s = "\<lparr>pc = AtGrow, shared = t, history = h\<rparr>"
  define t0 where "t0 = fold wdt_sweep (tw_before w k) t"
  have before: "tel_steps ?s (?s\<lparr>shared := t0\<rparr>)"
    using sweeps_steps [of ?s "tw_before w k"] by (simp add: t0_def)
  have last: "\<exists>s'. tel_steps ?s s' \<and> stands_at s' (Return v, u)"
    if "tel_steps ?s s1" "tel_step s1 s2" "pc s2 = Ended v" "shared s2 = u" for s1 s2 v u
    using that by (intro exI [of _ s2]) (auto simp: stands_at_def)
  consider (exit) "ex" | (nomem) "\<not> ex" "grow_registry (tw_realloc w k) t0 = None"
    | (go) t1 where "\<not> ex" "grow_registry (tw_realloc w k) t0 = Some t1" by blast
  then show ?case
  proof cases
    case exit
    then show ?thesis
      using last [OF rtranclp.rtrancl_refl exit_requested [of ?s]] by (simp add: tel_loop.simps)
  next
    case nomem
    then show ?thesis
      using last [OF before grow_failed [of "?s\<lparr>shared := t0\<rparr>" "tw_realloc w k"]]
      by (simp add: tel_loop.simps flip: t0_def)
  next
    case go
    note its = iteration_steps [OF go(2) [unfolded t0_def], where h = h]
    obtain r ex' es where rx: "tel_receiveFrame False evs = (r, ex', es)" by (metis prod_cases3)
    show ?thesis
    proof (cases r)
      case Blocked
      with go rx its(1) show ?thesis
        by (intro exI [of _ "\<lparr>pc = AtReceive, shared = t1, history = h\<rparr>"])
          (simp add: stands_at_def tel_loop.simps flip: t0_def)
    next
      case (Return lf)
      obtain len fr where lf: "lf = (len, fr)" by fastforce
      note rx = rx [unfolded Return lf]
      note step = tel_loop_step [OF go(2) [unfolded t0_def] rx]
      note IH = "1.IH" [rule_format, OF tel_rx.rx_shrinks [OF rx]]
      let ?rx = "\<lparr>pc = AtReceive, shared = t1, history = h\<rparr>"
      consider "len = -1" | "len \<noteq> -1" "len \<noteq> int sizeof_Sensor_t" | "len = int sizeof_Sensor_t" by blast
      then show ?thesis
      proof cases
        case 1
        with go(1) last [OF its(1) receive_failed [of ?rx "if ex' then 0 else -1"]] show ?thesis
          by (simp add: step)
      next
        case 2
        have "tel_step ?rx \<lparr>pc = AtGrow, shared = t1, history = h\<rparr>"
          using receive_incomplete [of ?rx] by simp
        with its(1) IH [of t1 h "Suc k" ex'] go(1) 2 show ?thesis
          by (simp add: step) (meson rtranclp.rtrancl_into_rtrancl rtranclp_trans)
      next
        case 3
        define t2 where "t2 = fold wdt_sweep (tw_between w k) (count_frame t1)"
        let ?rec = "\<lparr>pc = AtRecord (the fr), shared = t2, history = h\<rparr>"
        have at: "tel_steps ?s ?rec" using its(2) [of "the fr" "tw_between w k"] by (simp add: t2_def)
        obtain o' t3 where rec: "record_frame (the fr) t2 = (o', t3)" by fastforce
        show ?thesis
        proof (cases "o' = Recorded")
          case True
          then have "tel_step ?rec \<lparr>pc = AtGrow, shared = t3, history = h @ [the fr]\<rparr>"
            using recorded [of ?rec "the fr" t3] rec by simp
          with at IH [of t3 "h @ [the fr]" "Suc k" ex'] show ?thesis
            using go(1) 3 rec True by (simp add: step t2_def)
              (meson rtranclp.rtrancl_into_rtrancl rtranclp_trans)
        next
          case False
          from last [OF at record_failed [of ?rec "the fr", OF _ _ False, of t3]] False rec go(1) 3
          show ?thesis by (cases o') (simp_all add: step t2_def)
        qed
      qed
    qed
  qed
qed

section \<open>Every frame is recorded\<close>

lemma lookup_used: "registry_lookup t k \<noteq> None \<longleftrightarrow> k \<in> set (map key (used t))"
  by (auto simp: registry_lookup_def find_None_iff)

lemma tracks_known: "tracks look h \<Longrightarrow> look k \<noteq> None \<longleftrightarrow> k \<in> key ` set h"
proof -
  assume "tracks look h"
  from this [unfolded tracks_def Let_def, rule_format, of k]
  have "look k = None \<longleftrightarrow> filter (\<lambda>f. key f = k) h = []"
    by (cases "look k") simp_all
  then show ?thesis by (auto simp: filter_empty_conv)
qed

lemma count_card:
  assumes "registry_ok t" "tracks (registry_lookup t) h"
  shows "sensor_count t = card (key ` set h)"
proof -
  have "set (map key (used t)) = key ` set h"
    using tracks_known [OF assms(2)] lookup_used by blast
  moreover have "card (set (map key (used t))) = sensor_count t"
    using assms(1) by (simp add: registry_ok_def distinct_card del: set_map)
  ultimately show ?thesis by simp
qed

lemma sweeps_keep:
  assumes "registry_ok t" "tracks (registry_lookup t) h"
  shows "registry_ok (fold wdt_sweep nows t) \<and> tracks (registry_lookup (fold wdt_sweep nows t)) h \<and>
    has_room (fold wdt_sweep nows t) = has_room t"
  using assms by (induction nows arbitrary: t) (simp_all add: wdt_sweep_ok registry.tracks_sweep)

lemma grow_with_memory: "mem \<noteq> None \<Longrightarrow> \<exists>t1. grow_registry mem t = Some t1"
  by (auto simp: grow_registry_def Let_def)

lemma tel_loop_records:
  assumes "registry_ok t" "tracks (registry_lookup t) h" "\<forall>k. tw_realloc w k \<noteq> None"
    and "card (key ` set (h @ frs)) \<le> SENSORS_LIMIT_MAX"
  shows "\<exists>t'. tel_loop w k False (map (FrameMsg sizeof_Sensor_t) frs) t = (Blocked, t') \<and>
    registry_ok t' \<and> tracks (registry_lookup t') (h @ frs)"
  using assms
proof (induction frs arbitrary: k t h)
  case Nil
  note sw = sweeps_keep [OF Nil.prems(1,2), of "tw_before w k"]
  obtain t1 where g: "grow_registry (tw_realloc w k) (fold wdt_sweep (tw_before w k) t) = Some t1"
    using Nil.prems(3) grow_with_memory by blast
  from grow_registry_ok [OF _ g] sw Nil.prems g show ?case
    by (subst tel_loop.simps) (simp add: tel_receiveFrame.simps)
next
  case (Cons fr frs)
  note sw = sweeps_keep [OF Cons.prems(1,2), of "tw_before w k"]
  obtain t1 where g: "grow_registry (tw_realloc w k) (fold wdt_sweep (tw_before w k) t) = Some t1"
    using Cons.prems(3) grow_with_memory by blast
  have t1: "registry_ok t1" "has_room t1" "tracks (registry_lookup t1) h"
    using grow_registry_ok [OF _ g] sw by simp_all
  define t2 where "t2 = fold wdt_sweep (tw_between w k) (count_frame t1)"
  have t2: "registry_ok t2" "has_room t2" "tracks (registry_lookup t2) h"
    using sweeps_keep [of "count_frame t1" h "tw_between w k"] t1 by (simp_all add: t2_def)
  have rx: "tel_receiveFrame False (map (FrameMsg sizeof_Sensor_t) (fr # frs)) =
      (Return (int sizeof_Sensor_t, Some fr), False, map (FrameMsg sizeof_Sensor_t) frs)"
    using tel_rx.rx_delivers [of "[]"] by simp
  from t2(1,2) show ?case
  proof (cases rule: record_frame_cases [where fr = fr])
    case full
    then have "key fr \<notin> key ` set h" using tracks_known [OF t2(3)] by blast
    then have "card (key ` set (h @ [fr])) = Suc SENSORS_LIMIT_MAX"
      using count_card [OF t2(1,3)] full(2) by simp
    moreover have "card (key ` set (h @ [fr])) \<le> card (key ` set (h @ fr # frs))"
      by (intro card_mono) auto
    ultimately show ?thesis using Cons.prems(4) by simp
  next
    case (known i)
    then obtain t3 where rec: "record_frame fr t2 = (Recorded, t3)" by blast
    have "registry_ok t3" "tracks (registry_lookup t3) (h @ [fr])"
      using record_frame_ok [OF t2(1,2) rec] registry.tracks_store [OF t2(1,2) _ t2(3)] rec
      by (simp_all add: store_frame_Some)
    with Cons.IH [of t3 "h @ [fr]" "Suc k"] Cons.prems(3,4) rec show ?thesis
      by (subst tel_loop_step [OF g rx]) (simp flip: t2_def)
  next
    case new
    then obtain t3 where rec: "record_frame fr t2 = (Recorded, t3)" by blast
    have "registry_ok t3" "tracks (registry_lookup t3) (h @ [fr])"
      using record_frame_ok [OF t2(1,2) rec] registry.tracks_store [OF t2(1,2) _ t2(3)] rec
      by (simp_all add: store_frame_Some)
    with Cons.IH [of t3 "h @ [fr]" "Suc k"] Cons.prems(3,4) rec show ?thesis
      by (subst tel_loop_step [OF g rx]) (simp flip: t2_def)
  qed
qed

lemma tracks_initial: "tracks (registry_lookup (initial_telemetry g)) []"
  by (simp add: tracks_def registry_lookup_def initial_telemetry_def)

section \<open>Properties\<close>

definition example_tel_world :: tel_world where
  "example_tel_world = \<lparr>tw_realloc = \<lambda>_. Some (\<lambda>_. zero_sensor), tw_before = \<lambda>_. [],
     tw_between = \<lambda>_. [zero_timespec]\<rparr>"

text \<open>
  Every frame is recorded: as long as memory can be had and at most 128 different sensors
  report, the main loop takes every frame of the queue, whatever the watchdog does in between, and
  the registry then tracks exactly these frames.
\<close>

theorem telemetry_records_all:
  assumes "\<forall>k. tw_realloc w k \<noteq> None" "card (key ` set frs) \<le> SENSORS_LIMIT_MAX"
  shows "\<exists>t. tel_loop w 0 False (map (FrameMsg sizeof_Sensor_t) frs) (initial_telemetry g) = (Blocked, t) \<and>
    tracks (registry_lookup t) frs"
  using tel_loop_records [OF initial_ok tracks_initial assms(1), of frs 0 g] assms(2) by auto

theorem telemetry_records_all_witness:
  "\<exists>t. tel_loop example_tel_world 0 False (map (FrameMsg sizeof_Sensor_t) [zero_sensor, zero_sensor])
      (initial_telemetry (\<lambda>_. zero_sensor)) = (Blocked, t) \<and>
    tracks (registry_lookup t) [zero_sensor, zero_sensor]"
  by (rule telemetry_records_all) (simp_all add: example_tel_world_def SENSORS_LIMIT_MAX_def)

text \<open>
  C16: The sequential main loop refines the concurrent system: wherever a run of it stands (waiting
  for a frame or ended with a result), the shared state is that of a reachable state of the step
  relation with the main thread at that point.
\<close>

theorem telemetry_loop_reachable:
  "\<exists>s. reachable g s \<and> stands_at s (tel_loop w 0 False evs (initial_telemetry g))"
  using tel_loop_simulated [of "initial_telemetry g" "[]" w 0 False evs]
  by (simp add: reachable_def initial_sys_def)

text \<open>
  C36: Resource safety of the telemetry daemon: on every path on which \<open>main\<close> returns, the queue
  and the registry memory have been released exactly once, and the listening socket has been
  closed or handed to the connection thread.
\<close>

theorem tel_main_releases_everything:
  assumes "tel_main env p = (Return v, t, acts)"
  shows "held [] acts = Some []"
  using assms
  by (auto simp: tel_main_def tel_ipc_init_def tel_socket_init_def userInterface_init_def
      sensorWatchdog_init_def Let_def held_append
      split: prod.splits init_outcome.splits io.splits if_splits option.splits)

definition example_tel_env :: tel_env where
  "example_tel_env =
     \<lparr>te_init = example_init, te_mq_open_ok = True, te_msgsize = Some 80,
      te_malloc = Some (\<lambda>_. zero_sensor), te_watchdog = True, te_ui_malloc = True,
      te_socket = \<lparr>getaddrinfo_result = 0, socket_result = 5, setsockopt_result = 0,
        bind_result = 0, listen_result = 0\<rparr>, te_ui_thread = True,
      te_world = example_tel_world, te_frames = [FrameIntr SIGTERM]\<rparr>"

theorem tel_main_releases_everything_witness:
  "fst (tel_main example_tel_env example_process) = Return (Ret 0) \<and>
   held [] (snd (snd (tel_main example_tel_env example_process))) = Some []"
proof -
  have ret: "fst (tel_main example_tel_env example_process) = Return (Ret 0)"
    by (simp add: tel_main_def example_tel_env_def example_init_def daemon_init_def signals_init_def
        tel_ipc_init_def tel_socket_init_def userInterface_init_def sensorWatchdog_init_def
        tel_loop.simps tel_receiveFrame.simps example_tel_world_def grow_registry_def
        initial_telemetry_def registry_consts signalHandler_def)
  then have "tel_main example_tel_env example_process =
      (Return (Ret 0), fst (snd (tel_main example_tel_env example_process)),
       snd (snd (tel_main example_tel_env example_process)))"
    by (metis prod.collapse)
  from ret tel_main_releases_everything [OF this] show ?thesis by simp
qed

lemma tel_accept_loop_ledger:
  "fst (tel_accept_loop fd ex n evs) = Return () \<Longrightarrow> MallocFail \<notin> set evs \<Longrightarrow>
    held [ResFd fd] (snd (snd (tel_accept_loop fd ex n evs))) = Some []"
  by (induction fd ex n evs rule: tel_accept_loop.induct) (auto simp: prepend_def)

text \<open>
  C38: The connection thread of the user interface closes the listening socket exactly once and
  frees its argument, however its loop ends, provided no \<open>malloc\<close> fails.
\<close>

theorem connection_thread_closes_once:
  assumes "tel_socketConnectionHandler fd evs = (Return (), cs, acts)" "MallocFail \<notin> set evs"
  shows "held [server_cell, ResFd fd] acts = Some []"
  using assms tel_accept_loop_ledger [of fd False 0 evs]
  by (auto simp: tel_socketConnectionHandler_def prepend_def)

theorem connection_thread_closes_once_witness:
  "held [server_cell, ResFd 5]
     (snd (snd (tel_socketConnectionHandler 5 [AcceptClient 6 True, AcceptIntr SIGINT]))) = Some []"
proof -
  have "tel_socketConnectionHandler 5 [AcceptClient 6 True, AcceptIntr SIGINT] =
      (Return (), [6], snd (snd (tel_socketConnectionHandler 5 [AcceptClient 6 True, AcceptIntr SIGINT])))"
    by (simp add: tel_socketConnectionHandler_def prepend_def signalHandler_def)
  from connection_thread_closes_once [OF this] show ?thesis by simp
qed

text \<open>
  When \<open>malloc\<close> fails in the accept loop, the listening socket is closed twice (once before
  the \<open>break\<close> and once after the loop): the second \<open>close\<close> hits a descriptor the thread no
  longer owns, which may by then belong to another thread.
\<close>

theorem malloc_failure_closes_twice:
  "fst (tel_socketConnectionHandler fd (MallocFail # evs)) = Return () \<and>
   held [server_cell, ResFd fd] (snd (snd (tel_socketConnectionHandler fd (MallocFail # evs)))) = None"
  by (simp add: tel_socketConnectionHandler_def)



text \<open>
  The registry distinguishes sensors by id and type, but GET ID looks at the id only: a sensor
  registered after another one with the same id and a different type is never returned.
\<close>

theorem same_id_shadowed:
  assumes "reachable g s" "i < j" "j < sensor_count (shared s)"
    and "s_id (sensor_registry (shared s) ! i) = s_id (sensor_registry (shared s) ! j)"
  shows "requested (shared s) (ReqId (s_id (sensor_registry (shared s) ! j))) \<noteq>
    [sensor_registry (shared s) ! j]"
proof -
  let ?reg = "sensor_registry (shared s)"
  have ok: "registry_ok (shared s)" using reachable_inv [OF assms(1)] by (simp add: tel_inv_def)
  define k where "k = (LEAST k. s_id (?reg ! k) = s_id (?reg ! j))"
  have k: "s_id (?reg ! k) = s_id (?reg ! j)" unfolding k_def by (rule LeastI_ex) blast
  have "k \<le> i" unfolding k_def using assms(4) by (rule Least_le)
  have "s_id (?reg ! l) \<noteq> s_id (?reg ! j)" if "l < k" for l
    using that not_less_Least unfolding k_def by blast
  then have found: "getSensor_ID (s_id (?reg ! j)) (Some ?reg) (sensor_count (shared s)) = ?reg ! k"
    using k \<open>k \<le> i\<close> assms(2,3) by (simp add: getSensor_ID_def getSensor_ID_loop_first [of 0 k])
  have "key (?reg ! k) \<noteq> key (?reg ! j)"
    using ok \<open>k \<le> i\<close> assms(2,3) by (auto simp: registry_ok_def distinct_conv_nth)
  then show ?thesis using found by auto
qed

text \<open>A second sensor with the id of the first and another type.\<close>

definition example_twin :: Sensor_t where
  "example_twin = zero_sensor\<lparr>s_type := SENSOR_TYPE_TORQUE\<rparr>"

definition example_twins :: telemetry where
  "example_twins = snd (record_frame example_twin (count_frame example_registry))"

lemmas twin_eval = record_frame_def sensorExists_def sensorExists_loop.simps count_frame_def
  initial_telemetry_def registry_consts key_def example_twin_def
  zero_sensor_def upt_rec updateRegistry_def Let_def

lemma example_twins_reachable:
  "\<exists>s. reachable (\<lambda>_. zero_sensor) s \<and> shared s = example_twins"
proof -
  let ?t = "example_registry"
  have "grow_registry None (fold wdt_sweep [] ?t) = Some ?t"
    by (simp add: example_registry_def grow_registry_def twin_eval)
  from iteration_steps(2) [OF this, of "[zero_sensor]" example_twin "[]"]
  have "reachable (\<lambda>_. zero_sensor)
      \<lparr>pc = AtRecord example_twin, shared = count_frame ?t, history = [zero_sensor]\<rparr>"
    using example_reachable by (simp add: reachable_def)
  moreover have "record_frame example_twin (count_frame ?t) = (Recorded, example_twins)"
    by (simp add: example_twins_def example_registry_def twin_eval)
  ultimately show ?thesis
    using reachable_step [OF _ tel_step.recorded [where fr = example_twin and t = example_twins]] by force
qed

theorem same_id_shadowed_witness:
  "requested example_twins (ReqId 0) \<noteq> [example_twin\<lparr>s_state := SENSOR_ONLINE\<rparr>]"
proof -
  have "sensor_count example_twins = 2"
    "sensor_registry example_twins ! 0 = zero_sensor\<lparr>s_state := SENSOR_ONLINE\<rparr>"
    "sensor_registry example_twins ! 1 = example_twin\<lparr>s_state := SENSOR_ONLINE\<rparr>"
    by (simp_all add: example_twins_def example_registry_def twin_eval)
  moreover obtain s where "reachable (\<lambda>_. zero_sensor) s" "shared s = example_twins"
    using example_twins_reachable by blast
  ultimately show ?thesis
    using same_id_shadowed [of "\<lambda>_. zero_sensor" s 0 1] by (simp add: example_twin_def zero_sensor_def)
qed

text \<open>
  A request for an id that is not registered is answered like any other, with the line of an
  empty sensor: the time of the epoch and no name and no data.
\<close>

theorem unknown_id_answered:
  assumes "\<forall>j < sensor_count t. s_id (sensor_registry t ! j) \<noteq> i"
  shows "requested t (ReqId i) = [zero_sensor] \<and>
    sensor_text (\<lambda>_. 0) zero_sensor = ''1970-01-01 00:00:00: : '' @ [NEWLINE]"
proof -
  have "localtime_r (\<lambda>_. 0) 0 =
      Some \<lparr>tm_year = 70, tm_mon = 0, tm_mday = 1, tm_hour = 0, tm_min = 0, tm_sec = 0\<rparr>"
    by (simp add: localtime_r_def gmtime_def year_walk.simps year_days_def month_days_def leap_def)
  moreover have "stamp_text \<lparr>tm_year = 70, tm_mon = 0, tm_mday = 1, tm_hour = 0, tm_min = 0, tm_sec = 0\<rparr> =
      ''1970-01-01 00:00:00''"
    by (simp add: stamp_text_def show_int_def two_digits_def pad_left_def show_base.simps digit_char_def
        char_of_eq_iff)
  ultimately have "getTime (\<lambda>_. 0) zero_sensor (Some []) = Some ''1970-01-01 00:00:00''"
    by (simp add: getTime_def zero_sensor_def zero_timespec_def strftime_def INTER_BUF_SIZE_def)
  then have "sensor_text (\<lambda>_. 0) zero_sensor = ''1970-01-01 00:00:00: : '' @ [NEWLINE]"
    by (simp add: sensor_text_def getDataString_text) (simp add: zero_sensor_def)
  with assms show ?thesis by (simp add: getSensor_ID_def getSensor_ID_loop_none)
qed

theorem unknown_id_answered_witness:
  "requested (initial_telemetry (\<lambda>_. zero_sensor)) (ReqId 77) = [zero_sensor]"
  using unknown_id_answered [of "initial_telemetry (\<lambda>_. zero_sensor)" 77] by (simp add: initial_telemetry_def)

end
