(* ===== verification/Gateway.thy ===== *)
theory Gateway
  imports Pipeline Logging Telemetry
begin

text \<open>
  The four daemons together: from the readings of a sensor client to the log files and the sensor
  registry.
\<close>

lemma willing_le: "willing n s \<Longrightarrow> m \<le> n \<Longrightarrow> willing m s"
  by (simp add: willing_def)

lemma frames_from_member:
  "fr \<in> set (frames_from w k rs) \<Longrightarrow>
   \<exists>j < k + length rs. \<exists>r \<in> set rs. fr = reading_frame (the (fst (clocks w j))) (the (snd (clocks w j))) r"
proof (induction rs arbitrary: k)
  case (Cons r rs)
  show ?case
  proof (cases "fr \<in> set (frames_from w (Suc k) rs)")
    case True
    from Cons.IH [OF this] show ?thesis by auto
  qed (use Cons.prems in \<open>auto intro: exI [of _ k]\<close>)
qed simp

lemma length_frames_from [simp]: "length (frames_from w k rs) = length rs"
  by (induction rs arbitrary: k) auto

lemma reading_frame_key: "key (reading_frame rt mt r) = (r_id r, r_type r)"
  by (simp add: key_def reading_frame_def)

lemma reading_frame_loggable:
  assumes "supported (r_type r)" "localtime_r tz (tv_sec rt) \<noteq> None"
  shows "loggable tz (reading_frame rt mt r)"
proof -
  have "nameSensor (Some []) (r_id r) (r_type r) = Some (s_name (reading_frame rt mt r))"
    using assms(1) by (cases "r_type r") (simp_all add: nameSensor_full reading_frame_def)
  from nameSensor_length [OF this] assms show ?thesis
    by (simp add: loggable_def) (simp add: reading_frame_def)
qed

lemma few_sensors:
  assumes "card ((\<lambda>r. (r_id r, r_type r)) ` set rs) \<le> SENSORS_LIMIT_MAX"
  shows "card (key ` set (frames_from w k rs)) \<le> SENSORS_LIMIT_MAX"
proof -
  have "key ` set (frames_from w k rs) \<subseteq> (\<lambda>r. (r_id r, r_type r)) ` set rs"
    using frames_from_member [of _ w k rs] reading_frame_key by fastforce
  with assms card_mono [of "(\<lambda>r. (r_id r, r_type r)) ` set rs" "key ` set (frames_from w k rs)"]
  show ?thesis by simp
qed

text \<open>
  C1: The gateway end to end. The lines of a client's data file, sent over TCP in any chunks, pass
  the acquisition and the processing daemon. When the readers keep up, the disk accepts the writes,
  memory can be had and at most 128 sensors report, then every data reading is in the log file of
  its sensor, in order, formatted with its time stamp, and the registry tracks all readings,
  heartbeats included; both daemons are waiting for more.
\<close>

theorem gateway_end_to_end:
  assumes "\<And>r. r \<in> set rs \<Longrightarrow> supported (r_type r)"
    and "client_pass (map reading_line rs) evs = (Return 0, wire_bytes, evs')"
    and "concat chunks = wire_bytes" "length rs \<le> n" "keeps_up pw"
    and "\<And>k. k < length rs \<Longrightarrow> localtime_r tz (tv_sec (the (fst (clocks pw k)))) \<noteq> None" "willing (length rs) ls"
    and "\<forall>k. tw_realloc tw k \<noteq> None" "card ((\<lambda>r. (r_id r, r_type r)) ` set rs) \<le> SENSORS_LIMIT_MAX"
  shows "\<exists>c ls' t. acq_socketConnectionHandler (fresh_conn chunks n) = (Return Disconnected, c) \<and>
    (let qs = snd (proc_loop pw 0 buffer False (map MqMessage (ac_forwarded c)) no_frames) in
       log_loop tz (map (FrameMsg sizeof_Sensor_t) (log_accepted qs)) ls = (Blocked, ls') \<and>
       ls_files ls' = fold (add_entry tz) (filter is_data (frames_from pw 0 rs)) (ls_files ls) \<and>
       tel_loop tw 0 False (map (FrameMsg sizeof_Sensor_t) (telemetry_accepted qs))
         (initial_telemetry g) = (Blocked, t) \<and>
       tracks (registry_lookup t) (frames_from pw 0 rs))"
proof -
  let ?frs = "frames_from pw 0 rs"
  obtain c where c: "acq_socketConnectionHandler (fresh_conn chunks n) = (Return Disconnected, c)"
    and qs: "let qs = snd (proc_loop pw 0 buffer False (map MqMessage (ac_forwarded c)) no_frames) in
       telemetry_accepted qs = ?frs \<and> log_accepted qs = filter is_data ?frs"
    using readings_through [OF assms(1-5)] by blast
  have "\<forall>fr \<in> set (filter is_data ?frs). loggable tz fr"
    using frames_from_member [of _ pw 0 rs] reading_frame_loggable assms(1,6) by fastforce
  moreover have "willing (length (filter is_data ?frs)) ls"
    using willing_le [OF assms(7)] length_filter_le [of is_data ?frs] by simp
  ultimately obtain ls' where log: "log_loop tz (map (FrameMsg sizeof_Sensor_t) (filter is_data ?frs)) ls = (Blocked, ls')"
    "ls_files ls' = fold (add_entry tz) (filter is_data ?frs) (ls_files ls)"
    using willing_loop by blast
  have "card (key ` set ([] @ ?frs)) \<le> SENSORS_LIMIT_MAX" using few_sensors [OF assms(9)] by simp
  from tel_loop_records [OF initial_ok tracks_initial assms(8) this] obtain t where
    tel: "tel_loop tw 0 False (map (FrameMsg sizeof_Sensor_t) ?frs) (initial_telemetry g) = (Blocked, t)"
    "tracks (registry_lookup t) ?frs" by auto
  from c qs log tel show ?thesis by (auto simp: Let_def)
qed

theorem gateway_end_to_end_witness:
  "\<exists>c ls' t. acq_socketConnectionHandler (fresh_conn [concat (map reading_packet example_readings)] 2) =
      (Return Disconnected, c) \<and>
    (let qs = snd (proc_loop example_world 0 [] False (map MqMessage (ac_forwarded c)) no_frames) in
       log_loop (\<lambda>_. 0) (map (FrameMsg sizeof_Sensor_t) (log_accepted qs)) example_log = (Blocked, ls') \<and>
       ls_files ls' = fold (add_entry (\<lambda>_. 0)) (filter is_data (frames_from example_world 0 example_readings))
         (\<lambda>_. None) \<and>
       tel_loop example_tel_world 0 False (map (FrameMsg sizeof_Sensor_t) (telemetry_accepted qs))
         (initial_telemetry (\<lambda>_. zero_sensor)) = (Blocked, t) \<and>
       tracks (registry_lookup t) (frames_from example_world 0 example_readings))"
proof -
  have time: "localtime_r (\<lambda>_. 0) (tv_sec (the (fst (clocks example_world k)))) \<noteq> None"
    if "k < length example_readings" for k
  proof -
    from that have "k = 0 \<or> k = 1" by (auto simp: example_readings_def)
    then show ?thesis
      by (auto simp: example_world_def localtime_r_def gmtime_def year_walk.simps year_days_def
          month_days_def leap_def)
  qed
  have disk: "willing (length example_readings) example_log" "ls_files example_log = (\<lambda>_. None)"
    by (simp_all add: willing_def example_log_def WRITE_BUFFER_SIZE_def example_readings_def)
  have few: "card ((\<lambda>r. (r_id r, r_type r)) ` set example_readings) \<le> SENSORS_LIMIT_MAX"
    by (simp add: example_readings_def SENSORS_LIMIT_MAX_def)
  have mem: "\<forall>k. tw_realloc example_tel_world k \<noteq> None" by (simp add: example_tel_world_def)
  have sup: "\<And>r. r \<in> set example_readings \<Longrightarrow> supported (r_type r)" "length example_readings \<le> 2"
    by (auto simp: example_readings_def)
  have "keeps_up example_world" by (simp add: keeps_up_def example_world_def)
  from gateway_end_to_end [OF sup(1) example_pass _ sup(2) this time disk(1) mem few,
      of "[concat (map reading_packet example_readings)]" "[]" "\<lambda>_. zero_sensor"] disk(2)
  show ?thesis by simp
qed



end
