(* ===== verification/Dev_Interface.thy ===== *)
theory Dev_Interface
  imports Sense Server C_Scan
begin

text \<open>
  \<open>tester/dev-interface.c\<close>: the operator's program. Commands are typed, turned into requests,
  sent over a connection of their own, and the answer is printed line by line up to \<open>END\<close>. A
  second thread polls the latency sensor and appends latencies to a file, from which
  \<open>GET LATENCY\<close> prints an average. A connection is given by what the environment will do
  (\<open>connection\<close>); messages on \<open>stderr\<close> are left out.
\<close>

definition dev_SYNC_BYTE :: byte where "dev_SYNC_BYTE = 0xAA"
definition dev_GETALL :: byte where "dev_GETALL = 0xF6"
definition dev_GETTYPE :: byte where "dev_GETTYPE = 0xF7"
definition dev_GETID :: byte where "dev_GETID = 0xFB"
definition dev_GETTHROUGHPUT :: byte where "dev_GETTHROUGHPUT = 0xFC"
definition dev_GETONLINE :: byte where "dev_GETONLINE = 0xFD"
definition dev_GETOFFLINE :: byte where "dev_GETOFFLINE = 0xFE"
definition dev_LATENCY_SENSOR_ID :: u16 where "dev_LATENCY_SENSOR_ID = 65000"
definition TELEMETRY_BUFFER_SIZE :: nat where "TELEMETRY_BUFFER_SIZE = 4096"

lemmas dev_consts = dev_SYNC_BYTE_def dev_GETALL_def dev_GETTYPE_def dev_GETID_def
  dev_GETTHROUGHPUT_def dev_GETONLINE_def dev_GETOFFLINE_def

section \<open>Connecting\<close>

text \<open>
  The loop over the address list: for each address the result of \<open>socket\<close> and whether
  \<open>connect\<close> succeeds.
\<close>

fun try_addresses :: "(int \<times> bool) list \<Rightarrow> int \<times> sys_act list" where
  "try_addresses [] = (-1, [])"
| "try_addresses ((sockfd, connected) # rp) =
     (if sockfd = -1 then try_addresses rp
      else if connected then (sockfd, [Acquire (ResFd sockfd)])
      else let (r, acts) = try_addresses rp
           in (r, Acquire (ResFd sockfd) # Release (ResFd sockfd) # acts))"

type_synonym resolver = "string \<Rightarrow> string \<Rightarrow> (int \<times> bool) list option"

definition dev_connect_to_server :: "resolver \<Rightarrow> string \<Rightarrow> int \<Rightarrow> int \<times> sys_act list" where
  "dev_connect_to_server getaddrinfo ip port =
     (let port_string = fst (snprintf 16 (show_int port))
      in case getaddrinfo ip port_string of
           None \<Rightarrow> (-1, [])
         | Some result \<Rightarrow>
             let (sockfd, acts) = try_addresses result
             in (sockfd, Acquire ResAddrInfo # acts @ [Release ResAddrInfo]))"

section \<open>Sending\<close>

fun dev_send_all_loop ::
  "'b list \<Rightarrow> nat \<Rightarrow> nat \<Rightarrow> send_event list \<Rightarrow> int io \<times> 'b list \<times> send_event list" where
  "dev_send_all_loop buffer len total_sent evs =
     (if total_sent < len then
        (case evs of
           [] \<Rightarrow> (Blocked, [], [])
         | SendIntr # es \<Rightarrow> dev_send_all_loop buffer len total_sent es
         | SendFail # es \<Rightarrow> (Return (-1), [], es)
         | Sent n # es \<Rightarrow>
             (if n = 0 then (Return (-1), [], es)
              else let k = min n (len - total_sent);
                       (r, out, rest) = dev_send_all_loop buffer len (total_sent + k) es
                   in (r, take k (drop total_sent buffer) @ out, rest)))
      else (Return 0, [], evs))"

declare dev_send_all_loop.simps [simp del]

definition dev_send_all ::
  "'b list \<Rightarrow> send_event list \<Rightarrow> int io \<times> 'b list \<times> send_event list" where
  "dev_send_all buffer evs = dev_send_all_loop buffer (length buffer) 0 evs"

interpretation dev_sink: counting_sink dev_send_all_loop
  by unfold_locales (rule dev_send_all_loop.simps)

type_synonym send_result = "int io \<times> byte list \<times> send_event list"

definition send_get_id :: "u16 \<Rightarrow> send_event list \<Rightarrow> send_result" where
  "send_get_id i evs = dev_send_all ([dev_SYNC_BYTE, dev_GETID] @ bytes_le 2 i) evs"

definition send_get_throughput :: "send_event list \<Rightarrow> send_result" where
  "send_get_throughput evs = dev_send_all [dev_SYNC_BYTE, dev_GETTHROUGHPUT] evs"

definition send_type :: "byte \<Rightarrow> send_event list \<Rightarrow> send_result" where
  "send_type ty evs = dev_send_all [dev_SYNC_BYTE, dev_GETTYPE, ty] evs"

definition send_user_command :: "string \<Rightarrow> send_event list \<Rightarrow> send_result" where
  "send_user_command cmd evs =
     (let command = c_string cmd in
      if command = ''GET ALL'' @ [NEWLINE] then dev_send_all [dev_SYNC_BYTE, dev_GETALL] evs
      else if command = ''GET ONLINE'' @ [NEWLINE] then dev_send_all [dev_SYNC_BYTE, dev_GETONLINE] evs
      else if command = ''GET OFFLINE'' @ [NEWLINE] then dev_send_all [dev_SYNC_BYTE, dev_GETOFFLINE] evs
      else if take 7 command = ''GET ID '' then
        (let (v, endptr, range) = strtoul (drop 7 command) 16
         in if endptr = drop 7 command \<or> v > 65535 then (Return (-1), [], evs)
            else dev_send_all ([dev_SYNC_BYTE, dev_GETID] @ bytes_le 2 (of_nat v :: u16)) evs)
      else if command = ''GET TYPE POWCURRVOLT'' @ [NEWLINE] then send_type 0x2B evs
      else if command = ''GET TYPE TOR'' @ [NEWLINE] then send_type 0x4B evs
      else if command = ''GET TYPE TEMPRESS'' @ [NEWLINE] then send_type 0x1B evs
      else if command = ''GET TYPE PROX'' @ [NEWLINE] then send_type 0x8B evs
      else (Return (-1), [], evs))"

section \<open>Latency\<close>

definition parse_latency_response :: "string \<Rightarrow> (int \<times> int) option" where
  "parse_latency_response response =
     (case scan_literal ''LATENCY: '' response of
        None \<Rightarrow> None
      | Some s \<Rightarrow>
          (case scan_ld s of
             None \<Rightarrow> None
           | Some (seconds, s1) \<Rightarrow>
               (case scan_ld (dropWhile is_space s1) of
                  None \<Rightarrow> None
                | Some (nanoseconds, s2) \<Rightarrow> Some (seconds, nanoseconds))))"

text \<open>
  The static variables of \<open>log_latency\<close>, the text of \<open>latency-log.csv\<close> and the number of
  readings of the clock so far.
\<close>

record lat_state =
  previous_seconds :: int
  previous_nanoseconds :: int
  latency_file :: string
  lat_ticks :: nat

type_synonym clock = "nat \<Rightarrow> sensor_timespec_t option"

definition latency_us :: "int \<Rightarrow> int \<Rightarrow> sensor_timespec_t \<Rightarrow> int" where
  "latency_us sent_seconds sent_nanoseconds now =
     (let sent_time_us = s64 (s64 (sent_seconds * 1000000) + sent_nanoseconds sdiv 1000);
          current_time_us = s64 (s64 (tv_sec now * 1000000) + tv_nsec now sdiv 1000)
      in s64 (current_time_us - sent_time_us))"

definition log_latency :: "clock \<Rightarrow> int \<Rightarrow> int \<Rightarrow> lat_state \<Rightarrow> lat_state" where
  "log_latency clk sent_seconds sent_nanoseconds l =
     (if sent_seconds = previous_seconds l \<and> sent_nanoseconds = previous_nanoseconds l then l
      else
        let l1 = l\<lparr>previous_seconds := sent_seconds, previous_nanoseconds := sent_nanoseconds,
                   lat_ticks := Suc (lat_ticks l)\<rparr>
        in case clk (lat_ticks l) of
             None \<Rightarrow> l1
           | Some now \<Rightarrow>
               l1\<lparr>latency_file := latency_file l1 @
                 show_int (latency_us sent_seconds sent_nanoseconds now) @ [NEWLINE]\<rparr>)"

definition push_value :: "int \<Rightarrow> int list \<Rightarrow> int list" where
  "push_value v values =
     (if length values < 5 then values @ [v]
      else [values ! 1, values ! 2, values ! 3, values ! 4, v])"

fun average_loop :: "string list \<Rightarrow> int list \<Rightarrow> int list" where
  "average_loop [] values = values"
| "average_loop (line # lines) values =
     (if take 20 line = ''latency_microseconds'' then average_loop lines values
      else let (v, endptr, range) = strtoll line
           in if range \<or> endptr = line then average_loop lines values
              else average_loop lines (push_value v values))"

text \<open>The text printed; \<open>None\<close> for a file that cannot be opened.\<close>

definition print_average_latency :: "string option \<Rightarrow> string" where
  "print_average_latency file =
     (case file of
        None \<Rightarrow> []
      | Some contents \<Rightarrow>
          let values = average_loop (fgets_lines 255 contents) []
          in if values = [] then ''No latency samples available'' @ [NEWLINE]
             else let total = foldl (\<lambda>acc v. s64 (acc + v)) 0 values
                  in ''Average latency from the last '' @ show_int (int (length values)) @
                     '' samples: '' @ show_int (total sdiv int (length values)) @ '' microseconds'' @
                     [NEWLINE])"

section \<open>Receiving\<close>

text \<open>Result, text printed, state of the latency file (\<open>None\<close> for a null \<open>FILE *\<close>).\<close>

definition process_line ::
  "clock \<Rightarrow> string \<Rightarrow> bool \<Rightarrow> lat_state option \<Rightarrow> int \<times> string \<times> lat_state option" where
  "process_line clk line print_response lf =
     (if line = ''END'' then (1, [], lf)
      else (0, if print_response then line @ [NEWLINE] else [],
            case lf of
              None \<Rightarrow> None
            | Some l \<Rightarrow>
                (case parse_latency_response line of
                   None \<Rightarrow> Some l
                 | Some (s, ns) \<Rightarrow> Some (log_latency clk s ns l))))"

datatype scan_result = ScanEnd | ScanOverflow | ScanMore string

text \<open>The loop over the bytes of one \<open>recv\<close>; \<open>ScanMore line\<close> when it needs more.\<close>

fun scan_bytes ::
  "clock \<Rightarrow> bool \<Rightarrow> byte list \<Rightarrow> string \<Rightarrow> lat_state option \<Rightarrow> scan_result \<times> string \<times> lat_state option" where
  "scan_bytes clk pr [] line lf = (ScanMore line, [], lf)"
| "scan_bytes clk pr (b # buffer) line lf =
     (if char_of_byte b = NEWLINE then
        (let (result, out, lf1) = process_line clk (c_string line) pr lf
         in if result = 1 then (ScanEnd, out, lf1)
            else let (r, out2, lf2) = scan_bytes clk pr buffer [] lf1 in (r, out @ out2, lf2))
      else if length line \<ge> TELEMETRY_BUFFER_SIZE - 1 then (ScanOverflow, [], lf)
      else scan_bytes clk pr buffer (line @ [char_of_byte b]) lf)"

type_synonym receive_result = "int io \<times> string \<times> lat_state option \<times> rx_state"

function receive_until_end ::
  "clock \<Rightarrow> bool \<Rightarrow> string \<Rightarrow> lat_state option \<Rightarrow> rx_state \<Rightarrow> receive_result" where
  "receive_until_end clk pr line lf s =
     (case recv TELEMETRY_BUFFER_SIZE s of
        (Blocked, s1) \<Rightarrow> (Blocked, [], lf, s1)
      | (Return RecvEof, s1) \<Rightarrow> (Return (-1), [], lf, s1)
      | (Return RecvIntr, s1) \<Rightarrow> receive_until_end clk pr line lf s1
      | (Return RecvFail, s1) \<Rightarrow> (Return (-1), [], lf, s1)
      | (Return (RecvBytes buffer), s1) \<Rightarrow>
          (case scan_bytes clk pr buffer line lf of
             (ScanEnd, out, lf1) \<Rightarrow> (Return 0, out, lf1, s1)
           | (ScanOverflow, out, lf1) \<Rightarrow> (Return (-1), out, lf1, s1)
           | (ScanMore line1, out, lf1) \<Rightarrow>
               let (r, out2, lf2, s2) = receive_until_end clk pr line1 lf1 s1
               in (r, out @ out2, lf2, s2)))"
  by pat_completeness auto
termination
  by (relation "measure (\<lambda>(clk, pr, line, lf, s). rx_size s)")
    (auto dest: recv_size(2) [OF sym] simp: TELEMETRY_BUFFER_SIZE_def)

declare receive_until_end.simps [simp del]

section \<open>The two threads\<close>

record connection =
  cn_getaddrinfo :: resolver
  cn_sends :: "send_event list"
  cn_rx :: rx_state

abbreviation request_lock :: resource where "request_lock \<equiv> ResLock ''request_mutex''"

text \<open>One turn of the polling loop: the state of the file, the request sent, the ledger.\<close>

definition latency_round ::
  "clock \<Rightarrow> string \<Rightarrow> int \<Rightarrow> connection \<Rightarrow> lat_state \<Rightarrow> unit io \<times> lat_state \<times> byte list \<times> sys_act list" where
  "latency_round clk ip port cn l =
     (let (sockfd, acts) = dev_connect_to_server (cn_getaddrinfo cn) ip port;
          lock = Acquire request_lock # acts
      in if sockfd = -1 then (Return (), l, [], lock @ [Release request_lock])
         else
           let leave = lock @ [Release (ResFd sockfd), Release request_lock]
           in case send_get_id dev_LATENCY_SENSOR_ID (cn_sends cn) of
                (Blocked, out, _) \<Rightarrow> (Blocked, l, out, lock)
              | (Return r, out, _) \<Rightarrow>
                  if r = 0 then
                    (case receive_until_end clk False [] (Some l) (cn_rx cn) of
                       (Blocked, _, lf, _) \<Rightarrow> (Blocked, the lf, out, lock)
                     | (Return _, _, lf, _) \<Rightarrow> (Return (), the lf, out, leave))
                  else (Return (), l, out, leave))"

fun latency_rounds ::
  "clock \<Rightarrow> string \<Rightarrow> int \<Rightarrow> connection list \<Rightarrow> lat_state \<Rightarrow> unit io \<times> lat_state \<times> sys_act list" where
  "latency_rounds clk ip port [] l = (Blocked, l, [])"
| "latency_rounds clk ip port (cn # cns) l =
     (case latency_round clk ip port cn l of
        (Blocked, l1, out, acts) \<Rightarrow> (Blocked, l1, acts)
      | (Return _, l1, out, acts) \<Rightarrow>
          let (r, l2, acts2) = latency_rounds clk ip port cns l1 in (r, l2, acts @ acts2))"

text \<open>
  The thread: \<open>fopen(\<dots>, "w")\<close> succeeds or not and empties the file; the loop never returns, its
  turns are those the environment gives.
\<close>

definition latency_receiver_thread ::
  "bool \<Rightarrow> clock \<Rightarrow> string \<Rightarrow> int \<Rightarrow> connection list \<Rightarrow> unit io \<times> lat_state option \<times> sys_act list" where
  "latency_receiver_thread fopen_ok clk ip port cns =
     (if \<not> fopen_ok then (Return (), None, [])
      else
        let l = \<lparr>previous_seconds = -1, previous_nanoseconds = -1,
                 latency_file = ''latency_microseconds'' @ [NEWLINE], lat_ticks = 0\<rparr>;
            (r, l1, acts) = latency_rounds clk ip port cns l
        in (r, Some l1, acts))"

text \<open>One command of the operator: text printed, bytes sent, ledger.\<close>

definition dev_command ::
  "clock \<Rightarrow> string \<Rightarrow> int \<Rightarrow> string option \<Rightarrow> connection \<Rightarrow> string
    \<Rightarrow> unit io \<times> string \<times> byte list \<times> sys_act list" where
  "dev_command clk ip port file cn command =
     (if c_string command = ''GET LATENCY'' @ [NEWLINE] then
        (Return (), print_average_latency file, [], [])
      else
        let (sockfd, acts) = dev_connect_to_server (cn_getaddrinfo cn) ip port;
            lock = Acquire request_lock # acts
        in if sockfd = -1 then (Return (), [], [], lock @ [Release request_lock])
           else
             let leave = lock @ [Release (ResFd sockfd), Release request_lock]
             in case (if c_string command = ''GET THROUGHPUT'' @ [NEWLINE]
                      then send_get_throughput (cn_sends cn)
                      else send_user_command command (cn_sends cn)) of
                  (Blocked, sent, _) \<Rightarrow> (Blocked, [], sent, lock)
                | (Return r, sent, _) \<Rightarrow>
                    if r = -1 then (Return (), [], sent, leave)
                    else (case receive_until_end clk True [] None (cn_rx cn) of
                            (Blocked, out, _, _) \<Rightarrow> (Blocked, out, sent, lock)
                          | (Return _, out, _, _) \<Rightarrow> (Return (), out, sent, leave)))"

definition prompt :: string where "prompt = ''> ''"

definition dev_banner :: string where
  "dev_banner = concat (map (\<lambda>l. l @ [NEWLINE])
     [''Commands:'', ''GET ALL'', ''GET TYPE POWCURRVOLT'', ''GET TYPE TOR'', ''GET TYPE TEMPRESS'',
      ''GET TYPE PROX'', ''GET ONLINE'', ''GET OFFLINE'', ''GET ID <Sensor_ID>'', ''GET LATENCY'',
      ''GET THROUGHPUT''])"

record dev_world =
  dw_clock :: clock
  dw_latency_file :: "nat \<Rightarrow> string option"
  dw_connection :: "nat \<Rightarrow> connection"

fun dev_loop ::
  "dev_world \<Rightarrow> string \<Rightarrow> int \<Rightarrow> nat \<Rightarrow> string list \<Rightarrow> unit io \<times> string \<times> byte list list \<times> sys_act list" where
  "dev_loop w ip port k [] = (Return (), prompt, [], [])"
| "dev_loop w ip port k (command # commands) =
     (case dev_command (dw_clock w) ip port (dw_latency_file w k) (dw_connection w k) command of
        (Blocked, out, sent, acts) \<Rightarrow> (Blocked, prompt @ out, [sent], acts)
      | (Return _, out, sent, acts) \<Rightarrow>
          let (r, out2, sent2, acts2) = dev_loop w ip port (Suc k) commands
          in (r, prompt @ out @ out2, sent # sent2, acts @ acts2))"

abbreviation mutex_cell :: resource where "mutex_cell \<equiv> ResMem ''request_mutex''"

text \<open>\<open>main\<close> with the whole input of the operator.\<close>

definition dev_main ::
  "string list \<Rightarrow> bool \<Rightarrow> bool \<Rightarrow> dev_world \<Rightarrow> string \<Rightarrow> int io \<times> string \<times> byte list list \<times> sys_act list" where
  "dev_main argv mutex_ok thread_ok w stdin =
     (if length argv \<noteq> 4 then (Return 1, [], [], [])
      else if \<not> mutex_ok then (Return 1, [], [], [])
      else if \<not> thread_ok then (Return 1, [], [], [Acquire mutex_cell, Release mutex_cell])
      else
        let (r, out, sent, acts) =
              dev_loop w (argv ! 1) (atoi (argv ! 2)) 0 (fgets_lines 255 stdin)
        in case r of
             Blocked \<Rightarrow> (Blocked, dev_banner @ out, sent, Acquire mutex_cell # acts)
           | Return _ \<Rightarrow>
               (Return 0, dev_banner @ out, sent, Acquire mutex_cell # acts @ [Release mutex_cell]))"

section \<open>Connections are closed\<close>

lemma try_addresses_held:
  "try_addresses rp = (fd, acts) \<Longrightarrow> held [] acts = Some (if fd = -1 then [] else [ResFd fd])"
proof (induction rp arbitrary: acts rule: try_addresses.induct)
  case (2 sockfd connected rp)
  obtain r as where t: "try_addresses rp = (r, as)" by fastforce
  show ?case
  proof (cases "sockfd = -1 \<or> connected")
    case True
    with 2 t show ?thesis by (auto split: if_splits)
  next
    case False
    with 2 t show ?thesis by auto
  qed
qed simp

lemma connect_held:
  assumes "dev_connect_to_server ga ip port = (fd, acts)"
  shows "held [] acts = Some (if fd = -1 then [] else [ResFd fd])"
proof (cases "ga ip (fst (snprintf 16 (show_int port)))")
  case None
  with assms show ?thesis by (auto simp: dev_connect_to_server_def)
next
  case (Some rp)
  obtain fd' as where t: "try_addresses rp = (fd', as)" by fastforce
  with assms Some have "fd' = fd" "acts = Acquire ResAddrInfo # as @ [Release ResAddrInfo]"
    by (auto simp: dev_connect_to_server_def)
  moreover have "held [ResAddrInfo] as = Some ((if fd = -1 then [] else [ResFd fd]) @ [ResAddrInfo])"
    using held_frame [OF try_addresses_held [OF t], of "[ResAddrInfo]"] \<open>fd' = fd\<close> by simp
  ultimately show ?thesis by (simp add: held_append)
qed

text \<open>Locking, connecting and leaving in the order of the sources leaves nothing behind.\<close>

lemma locked_held:
  assumes "dev_connect_to_server ga ip port = (fd, acts)"
  shows "held [] (Acquire request_lock # acts @ (if fd = -1 then [] else [Release (ResFd fd)]) @
    [Release request_lock]) = Some []"
  using held_frame [OF connect_held [OF assms], of "[request_lock]"] by (simp add: held_append)

lemma latency_round_held:
  assumes "latency_round clk ip port cn l = (Return u, l1, out, acts)"
  shows "held [] acts = Some []"
proof -
  obtain fd cacts where c: "dev_connect_to_server (cn_getaddrinfo cn) ip port = (fd, cacts)" by fastforce
  from assms c locked_held [OF c] show ?thesis
    by (auto simp: latency_round_def Let_def split: if_splits prod.splits io.splits)
qed

lemma latency_rounds_held:
  "(\<And>cn l. cn \<in> set cns \<Longrightarrow> fst (latency_round clk ip port cn l) \<noteq> Blocked) \<Longrightarrow>
   latency_rounds clk ip port cns l = (r, l1, acts) \<Longrightarrow> held [] acts = Some []"
proof (induction cns arbitrary: l acts)
  case (Cons cn cns)
  obtain r1 l2 out acts1 where r1: "latency_round clk ip port cn l = (r1, l2, out, acts1)"
    by (metis prod_cases4)
  have "r1 \<noteq> Blocked" using Cons.prems(1) [of cn l] r1 by simp
  then obtain u where u: "r1 = Return u" by (cases r1) auto
  obtain acts2 where "latency_rounds clk ip port cns l2 = (r, l1, acts2)" "acts = acts1 @ acts2"
    using Cons.prems(2) r1 u by (auto split: prod.splits)
  with Cons latency_round_held [of clk ip port cn l u l2 out acts1] r1 u show ?case
    by (simp add: held_append)
qed simp

lemma dev_command_held:
  assumes "dev_command clk ip port file cn command = (Return u, out, sent, acts)"
  shows "held [] acts = Some []"
proof -
  obtain fd cacts where c: "dev_connect_to_server (cn_getaddrinfo cn) ip port = (fd, cacts)" by fastforce
  from assms c locked_held [OF c] show ?thesis
    by (auto simp: dev_command_def Let_def split: if_splits prod.splits io.splits)
qed

lemma dev_loop_held:
  "dev_loop w ip port k cmds = (Return u, out, sent, acts) \<Longrightarrow> held [] acts = Some []"
proof (induction w ip port k cmds arbitrary: out sent acts rule: dev_loop.induct)
  case (2 w ip port k command cmds)
  then show ?case
    by (auto simp: held_append dest!: dev_command_held split: prod.splits io.splits)
qed simp

section \<open>Responses\<close>

lemma scan_bytes_append:
  "scan_bytes clk pr (xs @ ys) line lf =
     (case scan_bytes clk pr xs line lf of
        (ScanMore l, out, lf1) \<Rightarrow> let (r, out2, lf2) = scan_bytes clk pr ys l lf1 in (r, out @ out2, lf2)
      | res \<Rightarrow> res)"
  by (induction clk pr xs line lf rule: scan_bytes.induct)
    (auto simp: Let_def split: prod.splits scan_result.splits)

text \<open>On an orderly connection only the bytes matter, not how they arrive.\<close>

lemma receive_until_end_stream:
  assumes "rx_orderly s"
  shows "\<exists>s'. receive_until_end clk pr line lf s =
    (Return (if fst (scan_bytes clk pr (rx_stream s) line lf) = ScanEnd then 0 else -1),
     fst (snd (scan_bytes clk pr (rx_stream s) line lf)),
     snd (snd (scan_bytes clk pr (rx_stream s) line lf)), s')"
  using assms
proof (induction s arbitrary: line lf rule: measure_induct_rule [where f = rx_size])
  case (less s)
  have pos: "0 < TELEMETRY_BUFFER_SIZE" by (simp add: TELEMETRY_BUFFER_SIZE_def)
  obtain r1 s1 where r1: "recv TELEMETRY_BUFFER_SIZE s = (r1, s1)" by fastforce
  note ok = recv_orderly [OF less.prems pos, unfolded r1]
  note smaller = recv_size(2) [OF r1 pos]
  show ?case
  proof (cases r1)
    case (Return res)
    show ?thesis
    proof (cases res)
      case (RecvBytes bs)
      with Return ok have bs: "rx_stream s = bs @ rx_stream s1" "rx_orderly s1"
        by (auto simp: recv_step_ok_def)
      obtain sr out lf1 where sc: "scan_bytes clk pr bs line lf = (sr, out, lf1)" by (metis prod_cases3)
      show ?thesis
      proof (cases sr)
        case (ScanMore l)
        from less.IH [OF smaller bs(2), of l lf1] Return RecvBytes r1 sc ScanMore bs(1) show ?thesis
          by (subst receive_until_end.simps) (auto simp: scan_bytes_append split: prod.splits)
      qed (use Return RecvBytes r1 sc bs(1) in
          \<open>subst receive_until_end.simps, simp add: scan_bytes_append\<close>)+
    next
      case RecvIntr
      with Return ok have "rx_stream s = rx_stream s1" "rx_orderly s1" by (auto simp: recv_step_ok_def)
      with less.IH [OF smaller, of line lf] Return RecvIntr r1 show ?thesis
        by (subst receive_until_end.simps) simp
    next
      case RecvEof
      with Return ok r1 show ?thesis
        by (subst receive_until_end.simps) (simp add: recv_step_ok_def)
    qed (use ok Return in \<open>simp add: recv_step_ok_def\<close>)
  qed (use ok in \<open>simp add: recv_step_ok_def\<close>)
qed

text \<open>Lines of text, each ended by a newline.\<close>

definition lines_text :: "string list \<Rightarrow> string" where
  "lines_text ls = concat (map (\<lambda>l. l @ [NEWLINE]) ls)"

lemma lines_text_simps [simp]:
  "lines_text [] = []" "lines_text (l # ls) = l @ NEWLINE # lines_text ls"
  "lines_text (ks @ ls) = lines_text ks @ lines_text ls"
  by (simp_all add: lines_text_def)

definition note_line :: "clock \<Rightarrow> string \<Rightarrow> lat_state option \<Rightarrow> lat_state option" where
  "note_line clk line lf = snd (snd (process_line clk line False lf))"

definition response_line :: "string \<Rightarrow> bool" where
  "response_line l \<longleftrightarrow> one_line l \<and> length l < TELEMETRY_BUFFER_SIZE \<and> l \<noteq> ''END''"

abbreviation to_bytes :: "string \<Rightarrow> byte list" where
  "to_bytes \<equiv> map byte_of_char"

lemma process_line_other:
  "line \<noteq> ''END'' \<Longrightarrow>
   process_line clk line pr lf = (0, if pr then line @ [NEWLINE] else [], note_line clk line lf)"
  by (simp add: process_line_def note_line_def)

lemma scan_bytes_line:
  "NEWLINE \<notin> set l \<Longrightarrow> length line + length l < TELEMETRY_BUFFER_SIZE \<Longrightarrow>
   scan_bytes clk pr (to_bytes l @ rest) line lf = scan_bytes clk pr rest (line @ l) lf"
  by (induction l arbitrary: line) auto

lemma scan_bytes_response:
  assumes "\<And>l. l \<in> set ls \<Longrightarrow> response_line l"
  shows "scan_bytes clk pr (to_bytes (lines_text ls @ ''END'' @ NEWLINE # junk)) [] lf =
    (ScanEnd, if pr then lines_text ls else [], fold (note_line clk) ls lf)"
  using assms
proof (induction ls arbitrary: lf)
  case Nil
  have "scan_bytes clk pr (to_bytes ''END'' @ to_bytes (NEWLINE # junk)) [] lf =
      scan_bytes clk pr (to_bytes (NEWLINE # junk)) ([] @ ''END'') lf"
    by (rule scan_bytes_line) (simp_all add: NEWLINE_def TELEMETRY_BUFFER_SIZE_def)
  then show ?case by (simp add: process_line_def c_string_def)
next
  case (Cons l ls)
  then have l: "one_line l" "length l < TELEMETRY_BUFFER_SIZE" "l \<noteq> ''END''"
    by (simp_all add: response_line_def)
  have "scan_bytes clk pr (to_bytes (l @ NEWLINE # lines_text ls @ ''END'' @ NEWLINE # junk)) [] lf =
      scan_bytes clk pr (to_bytes (NEWLINE # lines_text ls @ ''END'' @ NEWLINE # junk)) l lf"
    using l scan_bytes_line [of l "[]"] by (simp add: one_line_def)
  also have "\<dots> = (ScanEnd, if pr then lines_text (l # ls) else [], fold (note_line clk) (l # ls) lf)"
    using l Cons by (simp add: process_line_other)
  finally show ?case by simp
qed

section \<open>The latency file\<close>

lemma fgets_lines_text:
  "0 < n \<Longrightarrow> (\<And>l. l \<in> set ls \<Longrightarrow> NEWLINE \<notin> set l \<and> length l < n) \<Longrightarrow>
   fgets_lines n (lines_text ls) = map (\<lambda>l. l @ [NEWLINE]) ls"
proof (induction ls)
  case Nil
  then show ?case by (simp add: fgets_lines.simps)
next
  case (Cons l ls)
  then have l: "NEWLINE \<notin> set l" "length l < n" by auto
  then have "takeWhile (\<lambda>c. c \<noteq> NEWLINE) (l @ NEWLINE # lines_text ls) = l"
    by (subst takeWhile_append2) auto
  moreover have "min n (Suc (length l)) = Suc (length l)" using l(2) by simp
  ultimately show ?case
    using Cons by (simp add: fgets_lines.simps [of n "l @ NEWLINE # lines_text ls"])
qed

lemma fold_push_value:
  "length vals \<le> 5 \<Longrightarrow>
   fold push_value vs vals = drop (length (vals @ vs) - 5) (vals @ vs)"
proof (induction vs arbitrary: vals)
  case (Cons v vs)
  show ?case
  proof (cases "length vals < 5")
    case True
    then have "push_value v vals = vals @ [v]" by (simp add: push_value_def)
    with True Cons.IH [of "vals @ [v]"] show ?thesis by (simp del: drop_append)
  next
    case False
    with Cons.prems have "length vals = 5" by simp
    then obtain a b c d e where vals: "vals = [a, b, c, d, e]"
      by (auto simp: length_Suc_conv eval_nat_numeral)
    with Cons.IH [of "[b, c, d, e, v]"] show ?thesis by (simp add: push_value_def)
  qed
qed simp

abbreviation int64 :: "int \<Rightarrow> bool" where
  "int64 v \<equiv> LLONG_MIN \<le> v \<and> v \<le> LLONG_MAX"

lemma length_show_int64: "int64 v \<Longrightarrow> length (show_int v) \<le> 20"
proof -
  assume "int64 v"
  then have "\<bar>v\<bar> < 10 ^ 19" by (auto simp: LLONG_MIN_def LLONG_MAX_def abs_less_iff)
  then have "nat \<bar>v\<bar> < 10 ^ Suc 18" by (simp add: nat_less_iff)
  from length_show_base [OF _ this] show ?thesis by (auto simp: show_int_def)
qed

lemma average_loop_samples:
  "(\<And>v. v \<in> set vs \<Longrightarrow> int64 v) \<Longrightarrow>
   average_loop (map (\<lambda>v. show_int v @ [NEWLINE]) vs) vals = fold push_value vs vals"
proof (induction vs arbitrary: vals)
  case (Cons v vs)
  have "take 20 (show_int v @ [NEWLINE]) \<noteq> ''latency_microseconds''"
    by (cases rule: show_int_cases [of v]) (simp_all add: digit_char_neq)
  moreover have "strtoll (show_int v @ [NEWLINE]) = (v, [NEWLINE], False)"
    using Cons.prems [of v] by (intro strtoll_show_int) (simp_all add: is_space_def NEWLINE_def)
  moreover have "show_int v \<noteq> []" by (cases rule: show_int_cases [of v]) simp_all
  ultimately show ?case using Cons by simp
qed simp

definition samples_text :: "int list \<Rightarrow> string" where
  "samples_text vs = lines_text (''latency_microseconds'' # map show_int vs)"

lemma samples_text_append: "samples_text (vs @ [v]) = samples_text vs @ show_int v @ [NEWLINE]"
  by (simp add: samples_text_def)

lemma average_of_samples:
  assumes "\<And>v. v \<in> set vs \<Longrightarrow> int64 v"
  shows "average_loop (fgets_lines 255 (samples_text vs)) [] = drop (length vs - 5) vs"
proof -
  have "fgets_lines 255 (samples_text vs) =
      map (\<lambda>l. l @ [NEWLINE]) (''latency_microseconds'' # map show_int vs)"
    unfolding samples_text_def
  proof (rule fgets_lines_text)
    fix l
    assume "l \<in> set (''latency_microseconds'' # map show_int vs)"
    then show "NEWLINE \<notin> set l \<and> length l < 255"
    proof (cases "l = ''latency_microseconds''")
      case False
      with \<open>l \<in> _\<close> obtain v where "v \<in> set vs" "l = show_int v" by auto
      with length_show_int64 [of v] assms one_line_show_int [of v] show ?thesis
        by (auto simp: one_line_def)
    qed (simp add: NEWLINE_def)
  qed simp
  then show ?thesis
    using average_loop_samples [of vs "[]"] assms fold_push_value [of "[]" vs] by (simp add: comp_def)
qed

lemma foldl_s64:
  assumes "\<And>v. v \<in> set vs \<Longrightarrow> \<bar>v\<bar> \<le> b" "\<bar>acc\<bar> + int (length vs) * b < 2 ^ 63"
  shows "foldl (\<lambda>acc v. s64 (acc + v)) acc vs = acc + sum_list vs"
  using assms
proof (induction vs arbitrary: acc)
  case (Cons v vs)
  have v: "\<bar>v\<bar> \<le> b" using Cons.prems by simp
  then have "\<bar>acc + v\<bar> + int (length vs) * b < 2 ^ 63"
    using Cons.prems(2) abs_triangle_ineq [of acc v] by (simp add: algebra_simps)
  moreover have "0 \<le> int (length vs) * b" using v by simp
  ultimately have "s64 (acc + v) = acc + v" by (intro s64_id) linarith+
  with Cons \<open>\<bar>acc + v\<bar> + int (length vs) * b < 2 ^ 63\<close> show ?case by simp
qed simp

text \<open>Every run of the latency thread keeps the file in the form \<open>GET LATENCY\<close> reads.\<close>

definition file_ok :: "lat_state \<Rightarrow> bool" where
  "file_ok l \<longleftrightarrow> (\<exists>vs. latency_file l = samples_text vs \<and> (\<forall>v \<in> set vs. int64 v))"

lemma int64_s64: "int64 (s64 i)"
  using sint_greater_eq [of "word_of_int i :: u64"] sint_less [of "word_of_int i :: u64"]
  by (simp add: s64_def LLONG_MIN_def LLONG_MAX_def)

lemma log_latency_ok: "file_ok l \<Longrightarrow> file_ok (log_latency clk s ns l)"
proof (cases "clk (lat_ticks l)")
  case (Some now)
  assume "file_ok l"
  then obtain vs where vs: "latency_file l = samples_text vs" "\<forall>v \<in> set vs. int64 v"
    by (auto simp: file_ok_def)
  have "int64 (latency_us s ns now)" by (simp add: latency_us_def Let_def int64_s64)
  then have "file_ok (l\<lparr>latency_file := latency_file l @ show_int (latency_us s ns now) @ [NEWLINE]\<rparr>)"
    using vs unfolding file_ok_def
    by (intro exI [of _ "vs @ [latency_us s ns now]"]) (simp add: samples_text_append)
  with Some \<open>file_ok l\<close> show ?thesis by (simp add: file_ok_def log_latency_def Let_def)
qed (auto simp: log_latency_def file_ok_def)

abbreviation files_ok :: "lat_state option \<Rightarrow> bool" where
  "files_ok lf \<equiv> \<exists>l. lf = Some l \<and> file_ok l"

lemma process_line_ok: "files_ok lf \<Longrightarrow> files_ok (snd (snd (process_line clk line pr lf)))"
  by (auto simp: process_line_def log_latency_ok split: option.splits)

lemma scan_bytes_ok: "files_ok lf \<Longrightarrow> files_ok (snd (snd (scan_bytes clk pr bs line lf)))"
proof (induction clk pr bs line lf rule: scan_bytes.induct)
  case (2 clk pr b bs line lf)
  obtain r out lf1 where p: "process_line clk (c_string line) pr lf = (r, out, lf1)" by (metis prod_cases3)
  have "files_ok lf1" using process_line_ok [OF "2.prems", of clk "c_string line" pr] p by simp
  with 2 p show ?case by (auto simp: Let_def split: prod.splits)
qed simp

lemma receive_until_end_ok:
  "files_ok lf \<Longrightarrow> files_ok (fst (snd (snd (receive_until_end clk pr line lf s))))"
proof (induction s arbitrary: line lf rule: measure_induct_rule [where f = rx_size])
  case (less s)
  have pos: "0 < TELEMETRY_BUFFER_SIZE" by (simp add: TELEMETRY_BUFFER_SIZE_def)
  obtain r1 s1 where r1: "recv TELEMETRY_BUFFER_SIZE s = (r1, s1)" by fastforce
  note smaller = recv_size(2) [OF r1 pos]
  consider bs where "r1 = Return (RecvBytes bs)" | "r1 = Return RecvIntr" |
    "r1 \<in> {Blocked, Return RecvEof, Return RecvFail}"
    by (metis insertCI io.exhaust recv_result.exhaust)
  then show ?case
  proof cases
    case (1 bs)
    obtain sr out lf1 where sc: "scan_bytes clk pr bs line lf = (sr, out, lf1)" by (metis prod_cases3)
    have "files_ok lf1" using scan_bytes_ok [OF less.prems, of clk pr bs line] sc by simp
    note lf1 = this
    show ?thesis
    proof (cases sr)
      case (ScanMore l)
      have "files_ok (fst (snd (snd (receive_until_end clk pr l lf1 s1))))"
        using 1 lf1 by (intro less.IH smaller) auto
      with 1 r1 sc ScanMore show ?thesis
        by (subst receive_until_end.simps) (auto split: prod.splits)
    qed (use 1 r1 sc lf1 in \<open>subst receive_until_end.simps, simp\<close>)+
  next
    case 2
    with less.IH [OF smaller less.prems] r1 show ?thesis by (subst receive_until_end.simps) simp
  next
    case 3
    with less.prems r1 show ?thesis by (subst receive_until_end.simps) auto
  qed
qed

lemma latency_round_ok:
  assumes "file_ok l"
  shows "file_ok (fst (snd (latency_round clk ip port cn l)))"
proof -
  obtain r out lf s where rc: "receive_until_end clk False [] (Some l) (cn_rx cn) = (r, out, lf, s)"
    by (metis prod_cases4)
  then have "file_ok (the lf)"
    using receive_until_end_ok [of "Some l" clk False "[]" "cn_rx cn"] assms by auto
  with assms rc show ?thesis by (auto simp: latency_round_def Let_def split: prod.splits io.splits)
qed

lemma latency_rounds_ok: "file_ok l \<Longrightarrow> file_ok (fst (snd (latency_rounds clk ip port cns l)))"
proof (induction cns arbitrary: l)
  case (Cons cn cns)
  obtain r l1 out acts where r: "latency_round clk ip port cn l = (r, l1, out, acts)" by (metis prod_cases4)
  have "file_ok l1" using latency_round_ok [OF Cons.prems, of clk ip port cn] r by simp
  with Cons.IH [of l1] r show ?case by (auto split: io.splits prod.splits)
qed simp

section \<open>Properties\<close>

text \<open>
  C19: A complete answer is shown completely. Whatever lines the daemon sends before \<open>END\<close>, in
  whatever TCP chunks (cut inside lines or inside the marker, with anything after it), the
  interface prints exactly these lines, in order, and reports success.
\<close>

theorem response_shown:
  assumes "\<And>l. l \<in> set ls \<Longrightarrow> response_line l" "rx_orderly s"
    and "rx_stream s = to_bytes (lines_text ls @ ''END'' @ NEWLINE # junk)"
  shows "\<exists>s'. receive_until_end clk True [] None s = (Return 0, lines_text ls, None, s')"
proof -
  have "fold (note_line clk) ls None = None"
    by (induction ls) (simp_all add: note_line_def process_line_def)
  with receive_until_end_stream [OF assms(2), of clk True "[]" None] scan_bytes_response [OF assms(1)]
    assms(3) show ?thesis by simp
qed

theorem response_shown_witness:
  "\<exists>s'. receive_until_end (\<lambda>_. None) True [] None
      \<lparr>rx_buf = [], rx_events = [Deliver (to_bytes ''a: b''), Deliver (to_bytes (NEWLINE # ''EN'')),
         Deliver (to_bytes (''D'' @ [NEWLINE])), PeerClose], rx_exit = False\<rparr> =
    (Return 0, ''a: b'' @ [NEWLINE], None, s')"
proof -
  let ?s = "\<lparr>rx_buf = [], rx_events = [Deliver (to_bytes ''a: b''), Deliver (to_bytes (NEWLINE # ''EN'')),
         Deliver (to_bytes (''D'' @ [NEWLINE])), PeerClose], rx_exit = False\<rparr>"
  have "rx_stream ?s = to_bytes (lines_text [''a: b''] @ ''END'' @ NEWLINE # [])" "rx_orderly ?s"
    by (simp_all add: rx_stream_def rx_orderly_def)
  moreover have "response_line ''a: b''"
    by (simp add: response_line_def TELEMETRY_BUFFER_SIZE_def NEWLINE_def)
  ultimately show ?thesis using response_shown [of "[''a: b'']" ?s] by simp
qed

text \<open>
  The interface is never fooled by an incomplete answer: on any connection the peer closes,
  success is reported exactly when the bytes contain a line \<open>END\<close> (the scan of the whole stream
  reaches it), however they were cut.
\<close>

theorem end_marker_decides:
  assumes "rx_orderly s" "receive_until_end clk pr [] lf s = (Return r, out, lf1, s1)"
  shows "(r = 0 \<longleftrightarrow> fst (scan_bytes clk pr (rx_stream s) [] lf) = ScanEnd) \<and>
    (r \<noteq> 0 \<longrightarrow> r = -1) \<and> out = fst (snd (scan_bytes clk pr (rx_stream s) [] lf))"
  using receive_until_end_stream [OF assms(1), of clk pr "[]" lf] assms(2) by auto

theorem end_marker_decides_witness:
  "fst (receive_until_end (\<lambda>_. None) True [] None
      \<lparr>rx_buf = to_bytes (''ENDED'' @ [NEWLINE]), rx_events = [PeerClose], rx_exit = False\<rparr>) = Return (-1)"
proof -
  let ?s = "\<lparr>rx_buf = to_bytes (''ENDED'' @ [NEWLINE]), rx_events = [PeerClose], rx_exit = False\<rparr>"
  have ok: "rx_orderly ?s" by (simp add: rx_orderly_def)
  have "scan_bytes (\<lambda>_. None) True (to_bytes ''ENDED'' @ to_bytes [NEWLINE]) [] None =
      scan_bytes (\<lambda>_. None) True (to_bytes [NEWLINE]) ([] @ ''ENDED'') None"
    by (rule scan_bytes_line) (simp_all add: NEWLINE_def TELEMETRY_BUFFER_SIZE_def)
  then have sc: "fst (scan_bytes (\<lambda>_. None) True (rx_stream ?s) [] None) \<noteq> ScanEnd"
    by (simp add: rx_stream_def process_line_def c_string_def)
  obtain r out lf1 s1 where r: "receive_until_end (\<lambda>_. None) True [] None ?s = (Return r, out, lf1, s1)"
    using receive_until_end_stream [OF ok, of "\<lambda>_. None" True "[]" None] by auto
  from end_marker_decides [OF ok r] sc r show ?thesis by auto
qed

text \<open>
  C20: \<open>GET LATENCY\<close> prints the mean of the last five latencies the polling thread has written
  (of all of them, when there are fewer), rounded towards zero.
\<close>

theorem average_of_last_five:
  assumes "vs \<noteq> []" "\<And>v. v \<in> set vs \<Longrightarrow> \<bar>v\<bar> \<le> 2 ^ 60"
  shows "print_average_latency (Some (samples_text vs)) =
    (let recent = drop (length vs - 5) vs
     in ''Average latency from the last '' @ show_int (int (length recent)) @ '' samples: '' @
        show_int (sum_list recent sdiv int (length recent)) @ '' microseconds'' @ [NEWLINE])"
proof -
  define recent where "recent = drop (length vs - 5) vs"
  have recent: "recent \<noteq> []" "length recent \<le> 5" "set recent \<subseteq> set vs"
    using assms(1) set_drop_subset [of "length vs - 5" vs]
    by (simp_all add: recent_def not_le flip: length_greater_0_conv)
  have "int64 v" if "v \<in> set vs" for v
    using assms(2) [OF that] by (auto simp: LLONG_MIN_def LLONG_MAX_def abs_le_iff)
  then have "average_loop (fgets_lines 255 (samples_text vs)) [] = recent"
    unfolding recent_def by (rule average_of_samples)
  moreover have "foldl (\<lambda>acc v. s64 (acc + v)) 0 recent = sum_list recent"
    using foldl_s64 [of recent "2 ^ 60" 0] recent(2,3) assms(2) by auto
  ultimately show ?thesis
    using recent(1) by (simp add: print_average_latency_def Let_def flip: recent_def)
qed

theorem average_of_last_five_witness:
  "print_average_latency (Some (samples_text [900, 10, 20, 30, 40, 51])) =
     ''Average latency from the last 5 samples: 30 microseconds'' @ [NEWLINE]"
proof -
  have "[900, 10, 20, 30, 40, 51 :: int] \<noteq> []"
    "\<And>v. v \<in> set [900, 10, 20, 30, 40, 51 :: int] \<Longrightarrow> \<bar>v\<bar> \<le> 2 ^ 60" by auto
  from average_of_last_five [OF this] show ?thesis
    by (simp add: Let_def show_int_def show_base.simps digit_char_def char_of_eq_iff signed_divide_int_def)
qed

text \<open>
  In every run of the polling thread, whatever arrives on its connections, the file stays a
  header followed by one line per latency, each a 64-bit number: the form for which the average
  above is stated.
\<close>

theorem latency_file_well_formed:
  assumes "latency_receiver_thread True clk ip port cns = (r, Some l, acts)"
  shows "\<exists>vs. latency_file l = samples_text vs \<and> (\<forall>v \<in> set vs. LLONG_MIN \<le> v \<and> v \<le> LLONG_MAX)"
proof -
  let ?l0 = "\<lparr>previous_seconds = -1, previous_nanoseconds = -1,
     latency_file = ''latency_microseconds'' @ [NEWLINE], lat_ticks = 0\<rparr>"
  have "file_ok ?l0" by (auto simp: file_ok_def samples_text_def intro: exI [of _ "[]"])
  from latency_rounds_ok [OF this, of clk ip port cns] assms have "file_ok l"
    by (auto simp: latency_receiver_thread_def Let_def split: prod.splits)
  then show ?thesis by (simp add: file_ok_def)
qed

definition example_connection :: "string \<Rightarrow> connection" where
  "example_connection response = \<lparr>cn_getaddrinfo = \<lambda>_ _. Some [(-1, False), (7, True)], cn_sends = [Sent 4],
     cn_rx = \<lparr>rx_buf = to_bytes response, rx_events = [PeerClose], rx_exit = False\<rparr>\<rparr>"

theorem latency_file_well_formed_witness:
  "\<exists>vs. latency_file (the (fst (snd (latency_receiver_thread True (\<lambda>_. None) ''::1'' 9196
      [example_connection ''junk''])))) = samples_text vs \<and> (\<forall>v \<in> set vs. LLONG_MIN \<le> v \<and> v \<le> LLONG_MAX)"
proof -
  obtain r lf acts where t: "latency_receiver_thread True (\<lambda>_. None) ''::1'' 9196
      [example_connection ''junk''] = (r, lf, acts)" by (metis prod_cases3)
  then obtain l where "lf = Some l" by (auto simp: latency_receiver_thread_def Let_def split: prod.splits)
  with t latency_file_well_formed [of "\<lambda>_. None" "''::1''" 9196 "[example_connection ''junk'']" r l acts]
  show ?thesis by simp
qed

text \<open>
  C21: The latency in the file is exact to the microsecond: the difference of the two clock values,
  each rounded down to microseconds. No 64-bit overflow occurs within \<open>2\<^sup>4\<^sup>2\<close> seconds of the epoch.
\<close>

theorem latency_exact:
  assumes "\<bar>s\<bar> \<le> 2 ^ 42" "0 \<le> ns" "ns < 10 ^ 9"
    and "\<bar>tv_sec now\<bar> \<le> 2 ^ 42" "0 \<le> tv_nsec now" "tv_nsec now < 10 ^ 9"
  shows "latency_us s ns now =
    (tv_sec now * 10 ^ 9 + tv_nsec now) div 1000 - (s * 10 ^ 9 + ns) div 1000"
proof -
  have us: "s64 (s64 (a * 1000000) + b sdiv 1000) = (a * 10 ^ 9 + b) div 1000 \<and>
      \<bar>(a * 10 ^ 9 + b) div 1000\<bar> < 2 ^ 62"
    if "\<bar>a\<bar> \<le> 2 ^ 42" "0 \<le> b" "b < 10 ^ 9" for a b :: int
  proof -
    have split: "(a * 10 ^ 9 + b) div 1000 = a * 1000000 + b div 1000"
      using div_mult_self1 [of 1000 b "a * 1000000"] by (simp add: algebra_simps)
    have small: "0 \<le> b div 1000" "b div 1000 < 1000000"
      using that by auto
    have "b sdiv 1000 = b div 1000" using that by (simp add: signed_divide_int_def sgn_if)
    moreover have a: "- 4398046511104 \<le> a" "a \<le> 4398046511104"
      using that(1) by (simp_all add: abs_le_iff)
    have "s64 (a * 1000000) = a * 1000000" by (rule s64_id) (use a in simp_all)
    moreover have "s64 (a * 1000000 + b div 1000) = a * 1000000 + b div 1000"
      by (rule s64_id) (use a small in simp_all)
    moreover have "\<bar>a * 1000000 + b div 1000\<bar> < 2 ^ 62" using a small by (simp add: abs_less_iff)
    ultimately show ?thesis by (simp only: split)
  qed
  have "s64 (x - y) = x - y" if "\<bar>x\<bar> < 2 ^ 62" "\<bar>y\<bar> < 2 ^ 62" for x y :: int
    by (rule s64_id) (use that in \<open>simp_all add: abs_less_iff\<close>)
  with us [OF assms(1-3)] us [OF assms(4-6)] show ?thesis
    by (simp add: latency_us_def Let_def)
qed

theorem latency_exact_witness:
  "latency_us 1700000000 999999999 \<lparr>tv_sec = 1700000001, tv_nsec = 1500\<rparr> = 2"
  using latency_exact [of 1700000000 999999999 "\<lparr>tv_sec = 1700000001, tv_nsec = 1500\<rparr>"] by simp


definition example_dev_world :: dev_world where
  "example_dev_world = \<lparr>dw_clock = \<lambda>_. None, dw_latency_file = \<lambda>_. None,
     dw_connection = \<lambda>_. example_connection (''END'' @ [NEWLINE])\<rparr>"


end
