(* ===== verification/Conversation.thy ===== *)
theory Conversation
  imports Pipeline Telemetry Dev_Interface
begin

text \<open>
  Both ends of the user interface together: what the operator's program sends is what the
  telemetry daemon decodes, and what the daemon answers is what the operator reads. The last
  theorem follows a time stamp from the latency client through packet, frame, registry and answer
  into the latency file.
\<close>

section \<open>Answers are lines\<close>

lemma one_line_consts [simp]:
  "NEWLINE \<noteq> CHR ''0''" "NEWLINE \<noteq> CHR ''-''" "NEWLINE \<noteq> CHR ''.''" "NEWLINE \<noteq> CHR '':''" "NEWLINE \<noteq> CHR '' ''"
  "CHR ''0'' \<noteq> NEWLINE" "CHR ''-'' \<noteq> NEWLINE" "CHR ''.'' \<noteq> NEWLINE" "CHR '':'' \<noteq> NEWLINE" "CHR '' '' \<noteq> NEWLINE"
  by (simp_all add: NEWLINE_def)

lemma one_line_two_digits [simp]: "one_line (two_digits n)"
  by (simp add: two_digits_def pad_left_def)

lemma one_line_stamp [simp]: "one_line (stamp_text info)"
  by (simp add: stamp_text_def)

lemma one_line_getTime [simp]: "one_line (the (getTime tz s (Some [])))"
  by (simp add: getTime_def strftime_def split: option.splits)

lemma one_line_decimal [simp]: "one_line (decimal_fraction v s)"
  by (simp add: decimal_fraction_def Let_def pad_left_def)

lemma one_line_data_text [simp]: "one_line (data_text t d)"
  by (cases t) (simp_all add: NEWLINE_def)

text \<open>The answer for a sensor without its newline.\<close>

definition sensor_line :: "(int \<Rightarrow> int) \<Rightarrow> Sensor_t \<Rightarrow> string" where
  "sensor_line tz s = butlast (sensor_text tz s)"

lemma sensor_text_line: "sensor_text tz s = sensor_line tz s @ [NEWLINE]"
  by (simp add: sensor_line_def sensor_text_def butlast_append)

lemma response_line_sensor:
  assumes "named s" "one_line (s_name s)"
  shows "response_line (sensor_line tz s)"
proof -
  have "length (sensor_line tz s) < TELEMETRY_BUFFER_SIZE"
    using sensor_text_length [OF assms(1), of tz]
    by (simp add: sensor_text_line TELEMETRY_BUFFER_SIZE_def TRANSMIT_BUFFER_SIZE_def)
  moreover have "CHR '':'' \<in> set (sensor_line tz s)" "one_line (sensor_line tz s)"
    using assms(2)
    by (simp_all add: sensor_line_def sensor_text_def butlast_append getDataString_text NEWLINE_def)
  moreover have "CHR '':'' \<notin> set ''END''" by simp
  ultimately show ?thesis unfolding response_line_def by metis
qed

abbreviation sensor_lines :: "(int \<Rightarrow> int) \<Rightarrow> Sensor_t list \<Rightarrow> string list" where
  "sensor_lines tz ss \<equiv> map (sensor_line tz) ss"

lemma one_line_show_fixed [simp]: "one_line (show_fixed p x)"
  by (simp add: show_fixed_def Let_def pad_left_def)

definition throughput_line :: "u64 \<Rightarrow> rat \<Rightarrow> string" where
  "throughput_line frames secs = butlast (throughput_text frames secs)"

lemma throughput_text_line: "throughput_text frames secs = throughput_line frames secs @ [NEWLINE]"
  by (simp add: throughput_line_def throughput_text_def Let_def butlast_append)

lemma response_line_throughput:
  assumes "1 \<le> secs"
  shows "response_line (throughput_line frames secs)"
proof -
  have "length (throughput_line frames secs) < TELEMETRY_BUFFER_SIZE"
    using throughput_text_length [OF assms, of frames] by (simp add: throughput_text_line TELEMETRY_BUFFER_SIZE_def)
  moreover have "one_line (throughput_line frames secs)" "hd (throughput_line frames secs) = CHR ''T''"
    using assms by (simp_all add: throughput_line_def throughput_text_def Let_def butlast_append NEWLINE_def)
  ultimately show ?thesis by (auto simp: response_line_def)
qed

text \<open>The lines of an answer before \<open>END\<close>.\<close>

definition answer_line_list :: "user_world \<Rightarrow> nat \<Rightarrow> request \<Rightarrow> string list" where
  "answer_line_list w k q =
     (if q = ReqThroughput then
        [throughput_line (throughput_frame_count (uw_later w k) - throughput_frame_count (uw_view w k))
          (elapsedSeconds (the (fst (uw_clock w k))) (the (snd (uw_clock w k))))]
      else sensor_lines (uw_tz w) (requested (uw_view w k) q))"

lemma answer_body_lines: "answer_body w k q = lines_text (answer_line_list w k q)"
  by (simp add: answer_body_def answer_line_list_def lines_text_def throughput_text_line comp_def
      flip: sensor_text_line)

lemma answer_lines: "answer w k q = lines_text (answer_line_list w k q) @ ''END'' @ [NEWLINE]"
  by (simp add: answer_def answer_body_lines RESPONSE_END_MARKER_def)

text \<open>Names as \<open>nameSensor\<close> makes them.\<close>

definition plain_names :: "telemetry \<Rightarrow> bool" where
  "plain_names t \<longleftrightarrow> (\<forall>s \<in> set (used t). named s \<and> one_line (s_name s))"

lemma requested_plain:
  assumes "plain_names t" "sensor_count t \<le> length (sensor_registry t)" "s \<in> set (requested t q)"
  shows "named s \<and> one_line (s_name s)"
proof (cases q)
  case (ReqId i)
  have "one_line (s_name zero_sensor)" by (simp add: zero_sensor_def)
  with ReqId assms getSensor_ID_cases [OF assms(2), of i] show ?thesis by (auto simp: plain_names_def)
qed (use assms in \<open>auto simp: plain_names_def\<close>)

lemma answer_line_list_ok:
  assumes "world_ok w" "plain_names (uw_view w k)" "l \<in> set (answer_line_list w k q)"
  shows "response_line l"
proof (cases "q = ReqThroughput")
  case True
  obtain st en where "uw_clock w k = (Some st, Some en)" "1 \<le> elapsedSeconds st en"
    using assms(1) unfolding world_ok_def by blast
  with True assms(3) response_line_throughput show ?thesis by (auto simp: answer_line_list_def)
next
  case False
  have "sensor_count (uw_view w k) \<le> length (sensor_registry (uw_view w k))"
    using assms(1) by (simp add: world_ok_def view_ok_def)
  with False assms(3) requested_plain [OF assms(2)] response_line_sensor show ?thesis
    by (auto simp: answer_line_list_def)
qed

section \<open>Commands are requests\<close>

fun command_text :: "request \<Rightarrow> string" where
  "command_text (ReqId i) = ''GET ID '' @ show_base 16 (unat i) @ [NEWLINE]"
| "command_text (ReqType SENSOR_TYPE_POWCURRVOLT) = ''GET TYPE POWCURRVOLT'' @ [NEWLINE]"
| "command_text (ReqType SENSOR_TYPE_TORQUE) = ''GET TYPE TOR'' @ [NEWLINE]"
| "command_text (ReqType SENSOR_TYPE_TEMPPRESS) = ''GET TYPE TEMPRESS'' @ [NEWLINE]"
| "command_text (ReqType SENSOR_TYPE_PROXIMITY) = ''GET TYPE PROX'' @ [NEWLINE]"
| "command_text (ReqType _) = []"
| "command_text ReqOnline = ''GET ONLINE'' @ [NEWLINE]"
| "command_text ReqOffline = ''GET OFFLINE'' @ [NEWLINE]"
| "command_text ReqAll = ''GET ALL'' @ [NEWLINE]"
| "command_text ReqThroughput = ''GET THROUGHPUT'' @ [NEWLINE]"

lemma c_string_command: "c_string (command_text q) = command_text q"
proof (rule c_string_id)
  show "CHR 0x00 \<notin> set (command_text q)"
    using one_line_show_base [of 16]
    by (cases q rule: command_text.cases) (auto simp: one_line_def NEWLINE_def)
qed

lemma send_user_command_id:
  "send_user_command (command_text (ReqId i)) evs = dev_send_all (encode_request (ReqId i)) evs"
proof -
  have "unat i \<le> 65535" by (rule unat_u16_le)
  then have "strtoul (show_base 16 (unat i) @ [NEWLINE]) 16 = (unat i, [NEWLINE], False)"
    by (intro strtoul_show_base) (simp_all add: ULONG_MAX_def)
  moreover have "c_string (''GET ID '' @ show_base 16 (unat i) @ [NEWLINE]) =
      ''GET ID '' @ show_base 16 (unat i) @ [NEWLINE]"
    using c_string_command [of "ReqId i"] by simp
  ultimately show ?thesis
    using \<open>unat i \<le> 65535\<close>
    by (simp add: send_user_command_def encode_request_def tel_SYNC_BYTE_def dev_consts selection_defs
        bytes_le_16)
qed

text \<open>What \<open>main\<close> sends for a command: \<open>GET THROUGHPUT\<close> has a function of its own.\<close>

definition send_command :: "string \<Rightarrow> send_event list \<Rightarrow> send_result" where
  "send_command command evs =
     (if c_string command = ''GET THROUGHPUT'' @ [NEWLINE] then send_get_throughput evs
      else send_user_command command evs)"

lemma send_user_command_encodes:
  assumes "valid_request q" "q \<noteq> ReqThroughput"
  shows "send_user_command (command_text q) evs = dev_send_all (encode_request q) evs"
proof (cases q)
  case (ReqType ty)
  with assms show ?thesis
    by (cases ty) (simp_all add: send_user_command_def c_string_def NEWLINE_def send_type_def
        encode_request_def tel_SYNC_BYTE_def dev_consts selection_defs)
next
  case (ReqId i)
  show ?thesis unfolding ReqId by (rule send_user_command_id)
qed (simp_all add: send_user_command_def c_string_def NEWLINE_def encode_request_def tel_SYNC_BYTE_def
    dev_consts selection_defs, use assms(2) in simp)

lemma command_not_special:
  "c_string (command_text q) \<noteq> ''GET LATENCY'' @ [NEWLINE]"
  "c_string (command_text q) = ''GET THROUGHPUT'' @ [NEWLINE] \<longleftrightarrow> q = ReqThroughput"
  unfolding c_string_command by (cases q rule: command_text.cases; simp)+

lemma send_command_encodes:
  "valid_request q \<Longrightarrow> send_command (command_text q) evs = dev_send_all (encode_request q) evs"
  unfolding send_command_def command_not_special using send_user_command_encodes [of q evs]
  by (cases "q = ReqThroughput") (simp_all add: send_get_throughput_def encode_request_def
      tel_SYNC_BYTE_def dev_consts selection_defs)

text \<open>A connection that is made, takes the request and brings these bytes.\<close>

definition serves :: "connection \<Rightarrow> string \<Rightarrow> int \<Rightarrow> byte list \<Rightarrow> byte list \<Rightarrow> bool" where
  "serves cn ip port request response \<longleftrightarrow>
     fst (dev_connect_to_server (cn_getaddrinfo cn) ip port) \<noteq> -1 \<and>
     fst (dev_send_all request (cn_sends cn)) = Return 0 \<and>
     rx_orderly (cn_rx cn) \<and> rx_stream (cn_rx cn) = response"

lemma dev_send_complete:
  assumes "fst (dev_send_all buf evs) = Return 0"
  shows "\<exists>rest. dev_send_all buf evs = (Return 0, buf, rest)"
proof -
  obtain r out rest where s: "dev_send_all buf evs = (r, out, rest)" by (metis prod_cases3)
  with assms dev_sink.transmit_complete [of buf evs out rest] show ?thesis by (simp add: dev_send_all_def)
qed

lemma dev_command_shows:
  assumes "valid_request q" "serves cn ip port (encode_request q) (to_bytes (lines_text ls @ ''END'' @ NEWLINE # junk))"
    and "\<And>l. l \<in> set ls \<Longrightarrow> response_line l"
  shows "\<exists>acts. dev_command clk ip port file cn (command_text q) =
    (Return (), lines_text ls, encode_request q, acts)"
proof -
  obtain fd acts where c: "dev_connect_to_server (cn_getaddrinfo cn) ip port = (fd, acts)" "fd \<noteq> -1"
    using assms(2) by (cases "dev_connect_to_server (cn_getaddrinfo cn) ip port") (auto simp: serves_def)
  obtain rest where "send_command (command_text q) (cn_sends cn) = (Return 0, encode_request q, rest)"
    using dev_send_complete [of "encode_request q" "cn_sends cn"] assms(2)
    by (auto simp: serves_def send_command_encodes [OF assms(1)])
  note send = this [unfolded send_command_def]
  have "fold (note_line clk) ls None = None"
    by (induction ls) (simp_all add: note_line_def process_line_def)
  then obtain s' where "receive_until_end clk True [] None (cn_rx cn) = (Return 0, lines_text ls, None, s')"
    using receive_until_end_stream [of "cn_rx cn" clk True "[]" None] scan_bytes_response [OF assms(3)] assms(2)
    by (auto simp: serves_def)
  with c send show ?thesis
    using command_not_special(1) [of q] by (simp add: dev_command_def Let_def)
qed

section \<open>Properties\<close>

text \<open>
  The request a command makes is the one the daemon decodes: for every valid request, the bytes
  the interface sends for its command are its encoding, the id in little-endian order and the type
  as the daemon's type code.
\<close>

theorem command_encodes_request:
  assumes "valid_request q"
  shows "send_command (command_text q) evs = dev_send_all (encode_request q) evs"
  using assms by (rule send_command_encodes)

theorem command_encodes_request_witness:
  "send_command (''GET TYPE TEMPRESS'' @ [NEWLINE]) [Sent 3] =
    (Return 0, encode_request (ReqType SENSOR_TYPE_TEMPPRESS), [])"
  using command_encodes_request [of "ReqType SENSOR_TYPE_TEMPPRESS" "[Sent 3]"]
  by (simp add: encode_request_def dev_send_all_def dev_send_all_loop.simps)

text \<open>
  C3: The conversation end to end. The operator types a command; its bytes reach the daemon's user
  thread in any chunks; the thread answers from the registry as it is; the answer reaches the
  interface in any chunks. Then the screen shows exactly the lines of the sensors asked for, in
  the order of the registry (or the line of the throughput), and nothing else.
\<close>

theorem operator_sees_registry:
  assumes "valid_request q" "plain_names (uw_view w 0)" "world_ok w"
    and "concat chunks = encode_request q" "generous 130 evs"
  shows "\<exists>c'. userHandler fd w (fresh_user fd chunks evs) = (Return UserDisconnected, c') \<and>
    (\<forall>cn. serves cn ip port (encode_request q) (to_bytes (uc_out c')) \<longrightarrow>
      (\<exists>acts. dev_command clk ip port file cn (command_text q) =
        (Return (), answer_body w 0 q, encode_request q, acts)))"
proof -
  let ?c = "(fresh_user fd chunks evs)\<lparr>uc_acts := uc_acts (fresh_user fd chunks evs) @ [Release client_cell]\<rparr>"
  have rx: "rx_orderly (uc_rx ?c)" "rx_stream (uc_rx ?c) = requests_bytes [([], q)] []"
    "generous (130 * length [([] :: byte list, q)]) (uc_sends ?c)"
    using assms(4,5) by (simp_all add: fresh_user_def rx_orderly_def rx_stream_def requests_bytes_def)
  have "\<forall>(junk, q) \<in> set [([] :: byte list, q)]. tel_SYNC_BYTE \<notin> set junk \<and> valid_request q"
    using assms(1) by simp
  from user_loop_answers [OF assms(3) this _ rx, of 0] obtain c' where
    c': "userHandler fd w (fresh_user fd chunks evs) = (Return UserDisconnected, c')"
    "uc_out c' = answer w 0 q"
    by (auto simp: userHandler_def fresh_user_def)
  have out: "uc_out c' = lines_text (answer_line_list w 0 q) @ ''END'' @ NEWLINE # []"
    using c'(2) by (simp add: answer_lines)
  have "\<exists>acts. dev_command clk ip port file cn (command_text q) =
      (Return (), lines_text (answer_line_list w 0 q), encode_request q, acts)"
    if "serves cn ip port (encode_request q) (to_bytes (uc_out c'))" for cn
    using that answer_line_list_ok [OF assms(3,2)] unfolding out
    by (intro dev_command_shows [OF assms(1), where junk = "[]"]) auto
  with c'(1) show ?thesis unfolding answer_body_lines by blast
qed

lemma example_view_ok: "view_ok example_registry" "plain_names example_registry"
  by (simp_all add: example_registry_def view_ok_def plain_names_def twin_eval SENSOR_NAME_SIZE_def)

theorem operator_sees_registry_witness:
  "\<exists>c'. userHandler 7 (example_user_world\<lparr>uw_view := \<lambda>_. example_registry\<rparr>)
      (fresh_user 7 [[0xAA], [0xFD]] (replicate 130 (Sent 500))) = (Return UserDisconnected, c') \<and>
    (\<exists>acts. dev_command (\<lambda>_. None) ''::1'' 9196 None
        \<lparr>cn_getaddrinfo = \<lambda>_ _. Some [(5, True)], cn_sends = [Sent 2],
         cn_rx = \<lparr>rx_buf = to_bytes (uc_out c'), rx_events = [PeerClose], rx_exit = False\<rparr>\<rparr>
        (''GET ONLINE'' @ [NEWLINE]) =
      (Return (), sensor_text (\<lambda>_. 0) (zero_sensor\<lparr>s_state := SENSOR_ONLINE\<rparr>), [0xAA, 0xFD], acts))"
proof -
  let ?w = "example_user_world\<lparr>uw_view := \<lambda>_. example_registry\<rparr>"
  have enc: "encode_request ReqOnline = [0xAA, 0xFD]"
    by (simp add: encode_request_def tel_SYNC_BYTE_def selection_defs)
  have req: "requested example_registry ReqOnline = [zero_sensor\<lparr>s_state := SENSOR_ONLINE\<rparr>]"
    by (simp add: example_registry_def twin_eval)
  have w: "world_ok ?w" "plain_names (uw_view ?w 0)" "uw_tz ?w = (\<lambda>_. 0)"
    using example_world_ok by (simp_all add: example_view_ok world_ok_def example_user_world_def)
  have body: "answer_body ?w 0 ReqOnline = sensor_text (\<lambda>_. 0) (zero_sensor\<lparr>s_state := SENSOR_ONLINE\<rparr>)"
    using req w(3) by (simp add: answer_body_def)
  have "generous 130 (replicate 130 (Sent 500))"
    by (simp add: generous_def TRANSMIT_BUFFER_SIZE_def list_all_iff)
  moreover have "serves \<lparr>cn_getaddrinfo = \<lambda>_ _. Some [(5, True)], cn_sends = [Sent 2],
      cn_rx = \<lparr>rx_buf = bs, rx_events = [PeerClose], rx_exit = False\<rparr>\<rparr> ''::1'' 9196 [0xAA, 0xFD] bs" for bs
    by (simp add: serves_def dev_connect_to_server_def dev_send_all_def dev_send_all_loop.simps
        rx_orderly_def rx_stream_def)
  ultimately show ?thesis
    using operator_sees_registry [of ReqOnline ?w "[[0xAA], [0xFD]]" "replicate 130 (Sent 500)" 7
        "''::1''" 9196 "\<lambda>_. None" None] w
    by (fastforce simp: enc body)
qed

section \<open>The way of a time stamp\<close>

text \<open>The packet of the latency client is that of a reading of three words.\<close>

definition latency_reading :: "int \<Rightarrow> int \<Rightarrow> reading" where
  "latency_reading s ns =
     \<lparr>r_type = SENSOR_TYPE_POWCURRVOLT, r_id = 65000,
      r_data = Some \<lparr>word0 = ucast (word_of_int s :: u64), word4 = ucast (drop_bit 32 (word_of_int s :: u64)),
        word8 = word_of_int ns\<rparr>\<rparr>"

lemma bytes_le_64: "bytes_le 8 (v :: u64) = bytes_le 4 (ucast v :: u32) @ bytes_le 4 (ucast (drop_bit 32 v) :: u32)"
  using byte_of_half_word [of 0 v] byte_of_half_word [of 0 "drop_bit 32 v"]
  by (simp add: bytes_le_def upt_conv_Cons drop_bit_drop_bit)

lemma latency_packet_reading: "latency_packet s ns = reading_packet (latency_reading s ns)"
proof -
  have "reading_bytes (latency_reading s ns) = latency_data s ns"
    by (simp add: reading_bytes_def latency_reading_def latency_data_def bytes_le_64 Let_def)
  moreover have "length (latency_data s ns) = 12" by (simp add: latency_data_def)
  ultimately show ?thesis
    by (simp add: latency_packet_def reading_packet_def latency_reading_def LATENCY_SENSOR_TYPE_def
        LATENCY_SENSOR_ID_def)
qed

lemma latency_frame_generated:
  "generateFrame (Some (latency_packet s ns @ junk)) (Some zero_sensor) (length (latency_packet s ns))
     (Some rt) (Some mt) = Some (reading_frame rt mt (latency_reading s ns))"
  unfolding latency_packet_reading by (rule generateFrame_reading) (simp add: latency_reading_def)

lemma latency_frame_simps:
  "key (reading_frame rt mt (latency_reading s ns)) = (65000, SENSOR_TYPE_POWCURRVOLT)"
  "s_frame_type (reading_frame rt mt (latency_reading s ns)) = SENSOR_DATA"
  "s_data (reading_frame rt mt (latency_reading s ns)) = the (r_data (latency_reading s ns))"
  by (simp_all add: key_def reading_frame_def latency_reading_def)

abbreviation int32 :: "int \<Rightarrow> bool" where
  "int32 v \<equiv> - (2 ^ 31) \<le> v \<and> v < 2 ^ 31"

lemma sint_word_of_int32: "int32 v \<Longrightarrow> sint (word_of_int v :: u32) = v"
  by (simp add: signed_of_int signed_take_bit_int_eq_self)

lemma latency_sensor_line:
  assumes "s_id v = 65000" "s_data v = the (r_data (latency_reading s ns))" "int64 s" "int32 ns"
  shows "sensor_line tz v = ''LATENCY: '' @ show_int s @ '' '' @ show_int ns"
proof -
  have "sint (word_of_int s :: u64) = s"
    using s64_id [of s] assms(3) by (simp add: s64_def LLONG_MIN_def LLONG_MAX_def)
  then show ?thesis
    using assms(1,2,4)
    by (simp add: sensor_line_def sensor_text_def butlast_append latency_reading_def sint_word_of_int32)
qed

lemma not_space_minus: "\<not> is_space (CHR ''-'')"
  by (simp add: is_space_def)

lemma parse_latency_line:
  assumes "int64 s" "int32 ns"
  shows "parse_latency_response (''LATENCY: '' @ show_int s @ '' '' @ show_int ns) = Some (s, ns)"
proof -
  have digit: "dropWhile is_space (show_int i @ rest) = show_int i @ rest" for i rest
    using strip_sign_show_int [of i rest] by (cases rule: show_int_cases [of i]) (simp_all add: not_space_minus)
  have ns: "int64 ns" using assms(2) by (simp add: LLONG_MIN_def LLONG_MAX_def)
  have "scan_literal ''LATENCY: '' (''LATENCY: '' @ show_int s @ '' '' @ show_int ns) =
      Some (show_int s @ '' '' @ show_int ns)"
    using digit [of s] by (simp add: is_space_def)
  moreover have "scan_ld (show_int s @ '' '' @ show_int ns) = Some (s, '' '' @ show_int ns)"
    using assms(1) by (intro scan_ld_show_int) (simp_all add: is_space_def)
  moreover have "dropWhile is_space ('' '' @ show_int ns) = show_int ns"
    using digit [of ns "[]"] by (simp add: is_space_def)
  moreover have "scan_ld (show_int ns) = Some (ns, [])" using scan_ld_show_int [of ns "[]"] ns by simp
  ultimately show ?thesis by (simp add: parse_latency_response_def)
qed

text \<open>An id that only one type uses is found.\<close>

lemma getSensor_ID_unique:
  assumes "registry_ok t" "registry_lookup t (i, ty) = Some v"
    and "\<And>ty'. ty' \<noteq> ty \<Longrightarrow> registry_lookup t (i, ty') = None"
  shows "getSensor_ID i (Some (sensor_registry t)) (sensor_count t) = v"
proof -
  from assms(2) obtain k where k: "k < sensor_count t" "sensor_registry t ! k = v" "key v = (i, ty)"
    unfolding lookup_iff [OF assms(1)] by blast
  have "s_id (sensor_registry t ! j) \<noteq> i" if "j < k" for j
  proof
    assume "s_id (sensor_registry t ! j) = i"
    then have key: "key (sensor_registry t ! j) = (i, s_type (sensor_registry t ! j))"
      by (simp add: key_def)
    have "j < sensor_count t" using that k(1) by simp
    then have "registry_lookup t (i, s_type (sensor_registry t ! j)) = Some (sensor_registry t ! j)"
      unfolding lookup_iff [OF assms(1)] using key by blast
    then have "s_type (sensor_registry t ! j) = ty" using assms(3) by force
    then have "key (sensor_registry t ! j) = key (sensor_registry t ! k)" using key k by simp
    then show False
      using assms(1) that k(1) by (auto simp: registry_ok_def distinct_conv_nth)
  qed
  then show ?thesis
    using k by (simp add: getSensor_ID_def getSensor_ID_loop_first [of 0 k] key_def)
qed

text \<open>
  C4: A latency is measured end to end. The latency client puts its clock value into a packet; the
  processing daemon makes a frame of it; the telemetry daemon records the frame; the polling
  thread of the interface asks for sensor 65000 and receives the answer in any chunks. Then, unless
  this value was seen before or the clock fails, the file receives the difference of the
  interface's clock and the value the client put in, unchanged by five changes of representation.
  The other sensors must not use the id 65000.
\<close>

theorem latency_end_to_end:
  assumes "int64 s" "int32 ns"
    and "generateFrame (Some (latency_packet s ns @ junk)) (Some zero_sensor)
      (length (latency_packet s ns)) (Some rt) (Some mt) = Some fr"
    and "registry_ok t" "has_room t" "record_frame fr t = (Recorded, uw_view w k)"
    and "\<And>ty. ty \<noteq> SENSOR_TYPE_POWCURRVOLT \<Longrightarrow> registry_lookup t (65000, ty) = None"
    and "rx_orderly rx" "rx_stream rx = to_bytes (answer w k (ReqId dev_LATENCY_SENSOR_ID))"
    and "clk (lat_ticks l) = Some now" "(s, ns) \<noteq> (previous_seconds l, previous_nanoseconds l)"
  shows "\<exists>rx'. receive_until_end clk False [] (Some l) rx =
    (Return 0, [],
     Some (l\<lparr>previous_seconds := s, previous_nanoseconds := ns, lat_ticks := Suc (lat_ticks l),
       latency_file := latency_file l @ show_int (latency_us s ns now) @ [NEWLINE]\<rparr>), rx')"
proof -
  let ?t' = "uw_view w k" and ?line = "''LATENCY: '' @ show_int s @ '' '' @ show_int ns"
  have fr: "fr = reading_frame rt mt (latency_reading s ns)"
    using assms(3) by (simp add: latency_frame_generated)
  note fr_simps = latency_frame_simps [of rt mt s ns, folded fr]
  have ok: "registry_ok ?t'" using record_frame_ok [OF assms(4-6)] by simp
  obtain old where v: "registry_lookup ?t' (65000, SENSOR_TYPE_POWCURRVOLT) = Some (refresh fr old)"
    using record_frame_same [OF assms(4-6)] fr_simps(1) by auto
  have "registry_lookup ?t' (65000, ty) = None" if "ty \<noteq> SENSOR_TYPE_POWCURRVOLT" for ty
    using record_frame_other [OF assms(4-6), of "(65000, ty)"] that assms(7) fr_simps(1) by simp
  from getSensor_ID_unique [OF ok v this]
  have "requested ?t' (ReqId dev_LATENCY_SENSOR_ID) = [refresh fr old]"
    by (simp add: dev_LATENCY_SENSOR_ID_def)
  moreover have "sensor_line (uw_tz w) (refresh fr old) = ?line"
    using fr_simps assms(1,2) by (intro latency_sensor_line) (auto simp: key_def)
  ultimately have stream: "rx_stream rx = to_bytes (lines_text [?line] @ ''END'' @ NEWLINE # [])"
    using assms(9) by (simp add: answer_lines answer_line_list_def)
  have "length (show_int s) \<le> 20" "length (show_int ns) \<le> 20"
    using assms(1,2) by (auto intro!: length_show_int64 simp: LLONG_MIN_def LLONG_MAX_def)
  then have "response_line ?line"
    by (simp add: response_line_def TELEMETRY_BUFFER_SIZE_def) (simp add: NEWLINE_def)
  from scan_bytes_response [of "[?line]" clk False "[]" "Some l", folded stream] this
  have "scan_bytes clk False (rx_stream rx) [] (Some l) = (ScanEnd, [], note_line clk ?line (Some l))"
    by simp
  moreover have "note_line clk ?line (Some l) =
      Some (l\<lparr>previous_seconds := s, previous_nanoseconds := ns, lat_ticks := Suc (lat_ticks l),
        latency_file := latency_file l @ show_int (latency_us s ns now) @ [NEWLINE]\<rparr>)"
    using parse_latency_line [OF assms(1,2)] assms(10,11)
    by (auto simp: note_line_def process_line_def log_latency_def)
  ultimately show ?thesis using receive_until_end_stream [OF assms(8), of clk False "[]" "Some l"] by simp
qed

definition example_latency_registry :: telemetry where
  "example_latency_registry = snd (record_frame
     (reading_frame zero_timespec zero_timespec (latency_reading 1700000000 5))
     (initial_telemetry (\<lambda>_. zero_sensor)))"

theorem latency_end_to_end_witness:
  "\<exists>l rx'. receive_until_end (\<lambda>_. Some \<lparr>tv_sec = 1700000000, tv_nsec = 42005\<rparr>) False []
      (Some \<lparr>previous_seconds = -1, previous_nanoseconds = -1, latency_file = [], lat_ticks = 0\<rparr>)
      \<lparr>rx_buf = [], rx_events = [Deliver (to_bytes (answer
         (example_user_world\<lparr>uw_view := \<lambda>_. example_latency_registry\<rparr>) 0 (ReqId 65000))), PeerClose],
       rx_exit = False\<rparr> = (Return 0, [], Some l, rx') \<and>
    latency_file l = ''42'' @ [NEWLINE]"
proof -
  let ?fr = "reading_frame zero_timespec zero_timespec (latency_reading 1700000000 5)"
  let ?t = "initial_telemetry (\<lambda>_. zero_sensor)"
  let ?w = "example_user_world\<lparr>uw_view := \<lambda>_. example_latency_registry\<rparr>"
  let ?l = "\<lparr>previous_seconds = -1, previous_nanoseconds = -1, latency_file = [], lat_ticks = 0\<rparr>"
  let ?now = "\<lparr>tv_sec = 1700000000, tv_nsec = 42005\<rparr>"
  have rec: "record_frame ?fr ?t = (Recorded, uw_view ?w 0)"
    by (simp add: example_latency_registry_def record_frame_def sensorExists_def sensorExists_loop.simps
        initial_telemetry_def registry_consts updateRegistry_refresh)
  have room: "has_room ?t" by (simp add: has_room_def initial_telemetry_def registry_consts)
  have us: "latency_us 1700000000 5 ?now = 42"
    by (simp add: latency_us_def s64_id signed_divide_int_def)
  have n: "show_int 42 = ''42''"
    by (simp add: show_int_def show_base.simps digit_char_def char_of_eq_iff)
  have none: "registry_lookup ?t key = None" for key
    by (simp add: registry_lookup_def initial_telemetry_def)
  show ?thesis
    using latency_end_to_end [where l = ?l and now = ?now and clk = "\<lambda>_. Some ?now" and w = ?w and k = 0,
        OF _ _ latency_frame_generated [of 1700000000 5 "[]" zero_timespec zero_timespec] initial_ok room rec,
        of "\<lparr>rx_buf = [], rx_events = [Deliver (to_bytes (answer ?w 0 (ReqId 65000))), PeerClose], rx_exit = False\<rparr>"]
    by (auto simp: us n none rx_orderly_def rx_stream_def dev_LATENCY_SENSOR_ID_def LLONG_MIN_def
        LLONG_MAX_def)
qed

end
