(* ===== verification/Spec2Isabelle.thy ===== *)
theory Spec2Isabelle
  imports Gateway Conversation
begin

text \<open>
  A verification development for the Industrial Data Acquisition Gateway: four daemons in C on an
  embedded Linux device (\<open>src/src\<close>, \<open>src/include\<close>) and two programs on the host
  (\<open>src/sensor-sims/client-sensors.c\<close>, \<open>src/tester/dev-interface.c\<close>).

  \<^bold>\<open>The program.\<close> Sensor clients send packets (sync byte, type, id, length, data) over TCP to the
  acquisition daemon (\<open>acquiring_d.c\<close>), which cuts the byte stream into packets and puts them into
  a message queue. The processing daemon (\<open>processing_d.c\<close>) turns a packet into a frame
  \<open>Sensor_t\<close> and sends it to two more queues. The logging daemon (\<open>logging_d.c\<close>) appends data
  frames to one text file per sensor. The telemetry daemon (\<open>telemetry_d.c\<close>) keeps a registry of
  sensors, shared by its main loop, a watchdog thread and one thread per user; the user threads
  answer requests over TCP. \<open>dev-interface.c\<close> is the client of these; it also polls a special
  latency sensor, whose packets carry the clock of the sending client.

  \<^bold>\<open>The model.\<close> Every C function is a HOL function of its inputs, its state and the results of
  the system calls it makes. What the environment does is scripted: a finite list of events per
  descriptor or queue (bytes that arrive, signals, failures, numbers of bytes accepted), consumed in
  the order of the calls. A call with no event left is waiting; loops are therefore total functions
  with the result type \<open>io\<close>, whose value \<open>Blocked\<close> says that the code has not returned, and no fuel
  is needed: every loop of the sources consumes an event in each round, which is the measure of its
  termination proof. The two endless loops of the simulator and the polling loop of the interface
  take the number of rounds, or the rounds themselves, as an argument. Resources (descriptors,
  queues, memory, locks) are accounted for in a ledger of acquire, release and hand-over acts.
  Integers have the width of the C types where it matters; doubles are rationals rounded to 53 bits.

  \<^bold>\<open>Theories.\<close>
  \<^item> \<open>Prelude\<close>, \<open>C_Text\<close>, \<open>C_Scan\<close>, \<open>C_Double\<close>, \<open>C_Time\<close>: words and byte order, number formats,
    \<open>snprintf\<close>, \<open>fgets\<close>, \<open>strtok\<close>, \<open>strtoul\<close>, \<open>strtoll\<close>, \<open>sscanf\<close>, binary64 arithmetic and \<open>%f\<close>,
    \<open>localtime_r\<close> and \<open>strftime\<close>. The time zone is a parameter: the offset from UTC at a time.
  \<^item> \<open>Sense\<close>: \<open>sense.h\<close> and the decoding and registry functions of \<open>sense_utils.c\<close>; the union
    \<open>SensorData_u\<close> is its three 32-bit words, on a little-endian machine. \<open>Measurement\<close>: the
    formatting and log-writing functions of \<open>sense_utils.c\<close>.
  \<^item> \<open>Process_Init\<close>: \<open>process_init.c\<close>. \<open>Posix_IO\<close>: \<open>send\<close>, \<open>recv\<close> and the interfaces \<open>byte_sink\<close>,
    \<open>counting_sink\<close> and \<open>socket_reader\<close> of the transfer loops, each interpreted on the loops of the
    sources. \<open>Message_Queue\<close>: POSIX message queues and the interface of a bounded FIFO.
    \<open>Frame_Receiver\<close>: the interface of the two \<open>receiveFrame\<close> functions. \<open>Server\<close>: the ledger and
    the events of accept loops.
  \<^item> \<open>Acquiring\<close>, \<open>Processing\<close>, \<open>Logging\<close>: one daemon each, from \<open>main\<close> to the smallest helper.
  \<^item> \<open>Registry\<close>: the registry of \<open>telemetry_d.c\<close> with its critical sections and the interface
    \<open>sensor_store\<close>. \<open>Telemetry_Threads\<close>: main loop and watchdog as a step relation with any
    interleaving of the critical sections, its invariant and what follows from it.
    \<open>Telemetry_Server\<close>: requests, responses, user threads. \<open>Telemetry\<close>: the process, with the proof
    that its sequential loop is a run of the step relation.
  \<^item> \<open>Client_Sensors\<close>, \<open>Dev_Interface\<close>: the host programs.
  \<^item> \<open>Pipeline\<close>, \<open>Conversation\<close>, \<open>Gateway\<close> and this theory: components together.

  \<^bold>\<open>What is shown.\<close> Decoding is independent of TCP segmentation at all three receivers. Only well-formed
  packets and frames get into the queues, which are FIFOs. The log files are always a prefix of the
  abstract log, entry by entry; numbers in them are exact. Accesses to the registry stay in bounds in
  every interleaving, the registry tracks the frames received, the watchdog switches at 30 seconds
  to the nanosecond, GET ONLINE and GET OFFLINE split GET ALL. Every valid request is answered with
  the lines of the sensors asked for and the interface shows these lines. Readings arrive in log and
  registry, latest readings on the screen, time stamps in the latency file. Every thread and program
  that returns has released what it acquired, with the exceptions stated as theorems of their own.
  Error behaviour that looks unintended is stated as it is: a full logging queue starves telemetry,
  a heartbeat exposes uninitialised memory, a 129th sensor ends the telemetry daemon, unsigned
  pressures above \<open>2\<^sup>3\<^sup>1\<close> print as negative, a failing \<open>malloc\<close> closes a socket twice, a sensor
  with the id of another type is shadowed, an unknown id is answered with an empty sensor.

  \<^bold>\<open>Bounds.\<close> \<open>generous n\<close> and \<open>willing n\<close> describe a cooperating network or disk for \<open>n\<close> calls: at most
  130 sends per request (128 sensors, the marker, one to spare) and two writes per log entry (title
  and line). \<open>world_ok\<close> asks for a clock that advances by a second during the ten seconds of a
  throughput measurement. \<open>keeps_up\<close> asks the readers of the queues to take one message per
  iteration.

  \<^bold>\<open>Not modelled.\<close> \<open>syslog\<close>, \<open>perror\<close> and progress messages; delays (\<open>sleep\<close>, \<open>usleep\<close>); the contents of
  addresses and socket options; include directives, prototypes and the constants \<open>PORT\<close> and
  \<open>BACKLOG\<close>; the access of a detached thread to the registry after \<open>main\<close> has freed it, which is
  outside the step relation because the relation ends the watchdog with \<open>main\<close>; cancellation of the
  polling thread of the interface. Signed overflow in the interface's latency arithmetic is given
  the wrapped result. Shell scripts, makefiles, init scripts and the Buildroot configuration have no
  model.
\<close>

section \<open>From the sensor to the screen\<close>

lemma frames_from_append:
  "frames_from w k (xs @ ys) = frames_from w k xs @ frames_from w (k + length xs) ys"
  by (induction xs arbitrary: k) simp_all

text \<open>The frames of one sensor among those of a sequence of readings.\<close>

lemma frames_of_other_readings:
  assumes "\<And>r. r \<in> set rs \<Longrightarrow> (r_id r, r_type r) = k \<Longrightarrow> r_data r = None"
  shows "filter (\<lambda>f. s_frame_type f = SENSOR_DATA) (filter (\<lambda>f. key f = k) (frames_from w n rs)) = []"
proof -
  have "s_frame_type f \<noteq> SENSOR_DATA" if "f \<in> set (frames_from w n rs)" "key f = k" for f
  proof -
    from frames_from_member [OF that(1)] obtain rt mt r where "r \<in> set rs" "f = reading_frame rt mt r"
      by blast
    with assms [of r] that(2) show ?thesis by (simp add: reading_frame_key) (simp add: reading_frame_def)
  qed
  then show ?thesis by (auto simp: filter_empty_conv)
qed

text \<open>What tracking the frames means for one sensor.\<close>

lemma tracks_latest_data:
  assumes "tracks look hist" "filter (\<lambda>f. s_frame_type f = SENSOR_DATA) (filter (\<lambda>f. key f = k) hist) \<noteq> []"
  shows "\<exists>v. look k = Some v \<and> key v = k \<and> s_name v = s_name (last (filter (\<lambda>f. key f = k) hist)) \<and>
    s_data v = s_data (last (filter (\<lambda>f. s_frame_type f = SENSOR_DATA) (filter (\<lambda>f. key f = k) hist))) \<and>
    s_timestamp v = s_timestamp (last (filter (\<lambda>f. s_frame_type f = SENSOR_DATA) (filter (\<lambda>f. key f = k) hist)))"
proof (cases "look k")
  case None
  with assms spec [OF assms(1) [unfolded tracks_def], of k] show ?thesis by (simp add: Let_def del: filter_filter)
next
  case (Some v)
  with assms(2) spec [OF assms(1) [unfolded tracks_def], of k] show ?thesis by (auto simp: Let_def)
qed

lemma tracks_unknown:
  assumes "tracks look hist" "\<And>f. f \<in> set hist \<Longrightarrow> key f \<noteq> k"
  shows "look k = None"
proof -
  have "filter (\<lambda>f. key f = k) hist = []" using assms(2) by (simp add: filter_empty_conv)
  with spec [OF assms(1) [unfolded tracks_def], of k] show ?thesis
    by (simp add: Let_def split: option.splits)
qed

lemma sensor_text_cong:
  assumes "s_id u = s_id v" "s_data u = s_data v" "s_timestamp u = s_timestamp v" "s_name u = s_name v"
    "s_type u = s_type v"
  shows "sensor_text tz u = sensor_text tz v"
  using assms by (simp add: sensor_text_def getTime_def getDataString_text)

text \<open>
  C2: What the operator sees is the latest reading. After the telemetry daemon has taken the frames
  of a sequence of readings, the answer to \<open>GET ID\<close> for a sensor is the line of its last data
  reading, with the time it was processed, whatever heartbeats and readings of other sensors came
  before or after, provided no sensor of another type has its id.
\<close>

theorem operator_sees_latest_reading:
  assumes "rs = earlier @ r # later" "r_data r \<noteq> None"
    and "\<And>r'. r' \<in> set later \<Longrightarrow> (r_id r', r_type r') = (r_id r, r_type r) \<Longrightarrow> r_data r' = None"
    and "\<And>r'. r' \<in> set rs \<Longrightarrow> r_id r' = r_id r \<Longrightarrow> r_type r' = r_type r"
    and "\<forall>k. tw_realloc tw k \<noteq> None" "card ((\<lambda>r. (r_id r, r_type r)) ` set rs) \<le> SENSORS_LIMIT_MAX"
    and "tel_loop tw 0 False (map (FrameMsg sizeof_Sensor_t) (frames_from pw 0 rs)) (initial_telemetry g) = (res, t)"
  shows "res = Blocked \<and> (\<exists>v. requested t (ReqId (r_id r)) = [v] \<and>
    sensor_text tz v = sensor_text tz (reading_frame (the (fst (clocks pw (length earlier))))
      (the (snd (clocks pw (length earlier)))) r))"
proof -
  let ?frs = "frames_from pw 0 rs" and ?k = "(r_id r, r_type r)"
  let ?fr = "reading_frame (the (fst (clocks pw (length earlier)))) (the (snd (clocks pw (length earlier)))) r"
  have "card (key ` set ([] @ ?frs)) \<le> SENSORS_LIMIT_MAX" using few_sensors [OF assms(6)] by simp
  from tel_loop_records [OF initial_ok tracks_initial assms(5) this, of 0 g] assms(7)
  have run: "res = Blocked" "registry_ok t" "tracks (registry_lookup t) ?frs" by auto
  define fs where "fs = filter (\<lambda>f. key f = ?k) ?frs"
  have split: "?frs = frames_from pw 0 earlier @ ?fr # frames_from pw (Suc (length earlier)) later"
    by (simp add: assms(1) frames_from_append)
  have kind: "s_frame_type ?fr = SENSOR_DATA" using assms(2) by (simp add: reading_frame_def)
  have data: "filter (\<lambda>f. s_frame_type f = SENSOR_DATA) fs \<noteq> []"
    "last (filter (\<lambda>f. s_frame_type f = SENSOR_DATA) fs) = ?fr"
    using frames_of_other_readings [of later ?k pw "Suc (length earlier)"] assms(3) kind
    by (simp_all add: fs_def split reading_frame_key)
  then have "fs \<noteq> []" by auto
  then have "last fs \<in> set fs" by simp
  then obtain r' rt mt where "r' \<in> set rs" "last fs = reading_frame rt mt r'" "key (last fs) = ?k"
    using frames_from_member [of "last fs" pw 0 rs] unfolding fs_def by fastforce
  then have name: "s_name (last fs) = s_name ?fr"
    by (simp add: reading_frame_key) (simp add: reading_frame_def)
  from tracks_latest_data [OF run(3), of ?k] data name obtain v where
    v: "registry_lookup t ?k = Some v" "key v = ?k" "s_name v = s_name ?fr" "s_data v = s_data ?fr"
    "s_timestamp v = s_timestamp ?fr" unfolding fs_def by auto
  have "registry_lookup t (r_id r, ty) = None" if "ty \<noteq> r_type r" for ty
    using frames_from_member [of _ pw 0 rs] assms(4) that
    by (intro tracks_unknown [OF run(3)]) (fastforce simp: reading_frame_key)
  from getSensor_ID_unique [OF run(2) v(1) this]
  have "requested t (ReqId (r_id r)) = [v]" by simp
  moreover have "sensor_text tz v = sensor_text tz ?fr"
    using v by (intro sensor_text_cong) (auto simp: key_def reading_frame_def)
  ultimately show ?thesis using run(1) by blast
qed

theorem operator_sees_latest_reading_witness:
  "\<exists>t v. requested t (ReqId 300) = [v] \<and> sensor_text (\<lambda>_. 0) v =
     sensor_text (\<lambda>_. 0) (reading_frame (the (fst (clocks example_world 0))) (the (snd (clocks example_world 0)))
       (hd example_readings))"
proof -
  let ?r = "hd example_readings"
  obtain res t where run: "tel_loop example_tel_world 0 False
      (map (FrameMsg sizeof_Sensor_t) (frames_from example_world 0 example_readings))
      (initial_telemetry (\<lambda>_. zero_sensor)) = (res, t)" by fastforce
  have r: "example_readings = [] @ ?r # tl example_readings" "r_data ?r \<noteq> None" "r_id ?r = 300"
    by (simp_all add: example_readings_def)
  have unique: "\<And>r'. r' \<in> set (tl example_readings) \<Longrightarrow> (r_id r', r_type r') = (r_id ?r, r_type ?r) \<Longrightarrow> r_data r' = None"
    "\<And>r'. r' \<in> set example_readings \<Longrightarrow> r_id r' = r_id ?r \<Longrightarrow> r_type r' = r_type ?r"
    by (auto simp: example_readings_def)
  have "\<forall>k. tw_realloc example_tel_world k \<noteq> None"
    "card ((\<lambda>r. (r_id r, r_type r)) ` set example_readings) \<le> SENSORS_LIMIT_MAX"
    by (simp_all add: example_tel_world_def example_readings_def SENSORS_LIMIT_MAX_def)
  from operator_sees_latest_reading [OF r(1,2) unique this run, of "\<lambda>_. 0"] r(3) show ?thesis by auto
qed

end
